theory Spec2Isabelle
  imports Complex_Main
begin

section \<open>Values, errors and loops\<close>

text \<open>
  The notebooks compute with Python floats, NumPy arrays and the Green's-function
  containers of the external many-body library. Floating-point numbers are idealised as
  \<open>real\<close> and \<open>complex\<close>. A Python exception is an \<open>Inl\<close> value. Where the code would
  carry on with an IEEE infinity or NaN (a NumPy or C++ division by zero), the model stops
  with \<open>Inl NonFinite\<close>, since such a value is no real number. \<open>SolverError\<close> is what
  an external root finder raises when it gives up.
\<close>

datatype error =
    AssertionError
  | ZeroDivisionError
  | IndexError
  | KeyError
  | NonFinite
  | SolverError

definition ebind :: "error + 'a \<Rightarrow> ('a \<Rightarrow> error + 'b) \<Rightarrow> error + 'b" where
  "ebind m f = (case m of Inl e \<Rightarrow> Inl e | Inr x \<Rightarrow> f x)"

text \<open>
  A \<open>for\<close> loop whose body may raise: the first exception ends the loop.
\<close>

fun for_each :: "'a list \<Rightarrow> ('a \<Rightarrow> 's \<Rightarrow> error + 's) \<Rightarrow> 's \<Rightarrow> error + 's" where
  "for_each [] body s = Inr s"
| "for_each (x # xs) body s = ebind (body x s) (for_each xs body)"

text \<open>
  \<open>d[k]\<close> on a dictionary and \<open>xs[i]\<close> on a list or array, for \<open>i\<close> from a \<open>range\<close>.
\<close>

definition dict_get :: "(string \<rightharpoonup> 'v) \<Rightarrow> string \<Rightarrow> error + 'v" where
  "dict_get d k = (case d k of None \<Rightarrow> Inl KeyError | Some v \<Rightarrow> Inr v)"

definition list_get :: "'v list \<Rightarrow> nat \<Rightarrow> error + 'v" where
  "list_get xs i = (if i < length xs then Inr (xs ! i) else Inl IndexError)"

section \<open>Scalar-valued Green's functions on the mesh (k, i omega)\<close>

text \<open>
  A \<open>Gf\<close> on \<open>MeshProduct(kmesh, wmesh)\<close> with \<open>target_shape = []\<close>: the notebooks read
  \<open>len(kmesh)\<close>, \<open>wmesh.beta\<close> and the array \<open>chi.data\<close> (summed over all entries, so
  it is kept flat).
\<close>

record gf_kw =
  mesh_len :: nat
  mesh_beta :: real
  gf_data :: "complex list"

text \<open>
  The container arithmetic is the library's. For a scalar-valued container it acts entry
  by entry on the data and keeps the mesh: \<open>a * g\<close>, \<open>a - g\<close>, \<open>g * h\<close> (for two
  containers on the same mesh, as everywhere in the notebooks), and \<open>inverse(g)\<close>, the
  reciprocal of every entry.
\<close>

definition gf_scale :: "real \<Rightarrow> gf_kw \<Rightarrow> gf_kw" where
  "gf_scale a g = g\<lparr>gf_data := map (\<lambda>z. of_real a * z) (gf_data g)\<rparr>"

definition gf_rsub :: "real \<Rightarrow> gf_kw \<Rightarrow> gf_kw" where
  "gf_rsub a g = g\<lparr>gf_data := map (\<lambda>z. of_real a - z) (gf_data g)\<rparr>"

definition gf_mul :: "gf_kw \<Rightarrow> gf_kw \<Rightarrow> gf_kw" where
  "gf_mul g h = g\<lparr>gf_data := map2 (\<lambda>x y. x * y) (gf_data g) (gf_data h)\<rparr>"

definition gf_inverse :: "gf_kw \<Rightarrow> error + gf_kw" where
  "gf_inverse g =
     (if 0 \<in> set (gf_data g) then Inl NonFinite
      else Inr (g\<lparr>gf_data := map inverse (gf_data g)\<rparr>))"

section \<open>First TPSC notebook\<close>

text \<open>
  \<^verbatim>\<open>with HDFArchive("tpsc.h5", 'r') as R:
      chi0_kw = R['chi0_kw']\<close>
\<close>

definition reload_chi0 :: "(string \<rightharpoonup> gf_kw) \<Rightarrow> error + gf_kw" where
  "reload_chi0 R = dict_get R ''chi0_kw''"

text \<open>
  \<^verbatim>\<open>def chi_rpa(chi0_kw, U):
      chi = chi0_kw.copy()
      return chi * inverse(1 - float(U) * chi)\<close>
\<close>

definition chi_rpa :: "gf_kw \<Rightarrow> real \<Rightarrow> error + gf_kw" where
  "chi_rpa chi0_kw U =
     (let chi = chi0_kw in
      ebind (gf_inverse (gf_rsub 1 (gf_scale U chi))) (\<lambda>d. Inr (gf_mul chi d)))"

text \<open>
  \<^verbatim>\<open>def trace_chi_kw(chi):
      kmesh, wmesh = chi.mesh.components
      trace = chi.data.sum() / len(kmesh) / wmesh.beta
      assert(np.abs(trace.imag) < 1e-10), trace.imag
      return trace.real\<close>
  A zero divisor makes the NumPy quotient NaN, on which the assertion fails.
\<close>

definition trace_chi_kw :: "gf_kw \<Rightarrow> error + real" where
  "trace_chi_kw chi =
     (if mesh_len chi = 0 \<or> mesh_beta chi = 0 then Inl AssertionError
      else
        let trace = sum_list (gf_data chi) / of_nat (mesh_len chi) / of_real (mesh_beta chi) in
        if \<bar>Im trace\<bar> < 1 / 10 ^ 10 then Inr (Re trace) else Inl AssertionError)"

text \<open>
  \<^verbatim>\<open>def Usp_root_problem(Usp, chi0, n, U):
      tr_chi_sp = trace_chi_kw(chi_rpa(chi0, U=Usp[0]))
      diff = 2*tr_chi_sp + 0.5 * Usp/U * n**2 - n
      return diff\<close>
  \<open>Usp\<close> is the array the root finder passes; \<open>diff\<close> is an array of the same shape.
  \<open>U\<close> is a NumPy float, so \<open>U = 0\<close> gives an infinite entry.
\<close>

definition Usp_root_problem :: "real list \<Rightarrow> gf_kw \<Rightarrow> real \<Rightarrow> real \<Rightarrow> error + real list" where
  "Usp_root_problem Usp chi0 n U =
     (case Usp of
        [] \<Rightarrow> Inl IndexError
      | u0 # _ \<Rightarrow>
          ebind (chi_rpa chi0 u0) (\<lambda>chi.
          ebind (trace_chi_kw chi) (\<lambda>tr_chi_sp.
            if U = 0 then Inl NonFinite
            else Inr (map (\<lambda>u. 2 * tr_chi_sp + 0.5 * u / U * n\<^sup>2 - n) Usp))))"

text \<open>
  \<^verbatim>\<open>def Uch_root_problem(Uch, chi0, n, U, docc):
      tr_chi_ch = trace_chi_kw(chi_rpa(chi0, U=-Uch[0]))
      diff = 2*tr_chi_ch - 2 * docc - n + n**2
      return diff\<close>
  Here \<open>diff\<close> is a scalar.
\<close>

definition Uch_root_problem :: "real list \<Rightarrow> gf_kw \<Rightarrow> real \<Rightarrow> real \<Rightarrow> real \<Rightarrow> error + real" where
  "Uch_root_problem Uch chi0 n U docc =
     (case Uch of
        [] \<Rightarrow> Inl IndexError
      | u0 # _ \<Rightarrow>
          ebind (chi_rpa chi0 (- u0)) (\<lambda>chi.
          ebind (trace_chi_kw chi) (\<lambda>tr_chi_ch.
            Inr (2 * tr_chi_ch - 2 * docc - n + n\<^sup>2))))"

text \<open>
  \<open>scipy.optimize.fsolve(func, x0, args, xtol)\<close> is external and enters as the parameter
  \<open>fsolve func x0 xtol\<close>: it turns the scalar start value into a one-element array, calls
  \<open>func\<close> on arrays (a scalar result counts as a one-element array), passes on an
  exception of \<open>func\<close> and returns an array.
\<close>

type_synonym fsolve_t =
  "(real list \<Rightarrow> error + real list) \<Rightarrow> real list \<Rightarrow> real \<Rightarrow> error + real list"

definition index0 :: "real list \<Rightarrow> error + real" where
  "index0 xs = (case xs of [] \<Rightarrow> Inl IndexError | x # _ \<Rightarrow> Inr x)"

definition as_array :: "error + real \<Rightarrow> error + real list" where
  "as_array r = ebind r (\<lambda>d. Inr [d])"

text \<open>
  \<^verbatim>\<open>def solve_Usp_and_Uch(chi0, U, n, Usp0=0.1, Uch0=0.1):
      Usp = fsolve(Usp_root_problem, Usp0, args=(chi0, n, U), xtol=1e-2)[0]
      docc = 0.25 * Usp / U * n**2
      Uch = fsolve(Uch_root_problem, Uch0, args=(chi0, n, U, docc), xtol=1e-2)[0]
      return Usp, Uch, docc\<close>
\<close>

definition solve_Usp_and_Uch ::
  "fsolve_t \<Rightarrow> gf_kw \<Rightarrow> real \<Rightarrow> real \<Rightarrow> real \<Rightarrow> real \<Rightarrow> error + (real \<times> real \<times> real)" where
  "solve_Usp_and_Uch fsolve chi0 U n Usp0 Uch0 =
     ebind (fsolve (\<lambda>x. Usp_root_problem x chi0 n U) [Usp0] (1 / 100)) (\<lambda>r1.
     ebind (index0 r1) (\<lambda>Usp.
     ebind (if U = 0 then Inl NonFinite else Inr (0.25 * Usp / U * n\<^sup>2)) (\<lambda>docc.
     ebind (fsolve (\<lambda>x. as_array (Uch_root_problem x chi0 n U docc)) [Uch0] (1 / 100)) (\<lambda>r2.
     ebind (index0 r2) (\<lambda>Uch.
       Inr (Usp, Uch, docc))))))"

section \<open>Mermin-Wagner notebook: the TPSC functions\<close>

text \<open>
  \<^verbatim>\<open>def chi_rpa(chi0, U):
      return chi0 * inverse(1 - 0.5 * U * chi0)\<close>
  The second notebook defines its own \<open>chi_rpa\<close>; it is called \<open>chi_rpa_mw\<close> here.
\<close>

definition chi_rpa_mw :: "gf_kw \<Rightarrow> real \<Rightarrow> error + gf_kw" where
  "chi_rpa_mw chi0 U =
     ebind (gf_inverse (gf_rsub 1 (gf_scale (0.5 * U) chi0))) (\<lambda>d. Inr (gf_mul chi0 d))"

text \<open>
  \<^verbatim>\<open>def trace_chi(chi):
      kmesh, wmesh = chi.mesh.components
      trace = chi.data.sum() / len(kmesh) / wmesh.beta
      return trace.real\<close>
\<close>

definition trace_chi :: "gf_kw \<Rightarrow> error + real" where
  "trace_chi chi =
     (if mesh_len chi = 0 \<or> mesh_beta chi = 0 then Inl NonFinite
      else
        let trace = sum_list (gf_data chi) / of_nat (mesh_len chi) / of_real (mesh_beta chi) in
        Inr (Re trace))"

text \<open>
  \<^verbatim>\<open>def Usp_root(Usp, chi0, n, U):
      tr_chi_sp = trace_chi(chi_rpa(chi0, U=Usp))
      diff = tr_chi_sp + 0.5 * Usp/U * n**2 - n
      return diff

  def Uch_root(Uch, chi0, n, U, docc):
      tr_chi = trace_chi(chi_rpa(chi0, U=-Uch))
      diff = tr_chi - 2 * docc - n + n**2
      return diff\<close>
  Here \<open>Usp\<close>, \<open>Uch\<close> and \<open>U\<close> are Python floats, so \<open>U = 0\<close> raises.
\<close>

definition Usp_root :: "real \<Rightarrow> gf_kw \<Rightarrow> real \<Rightarrow> real \<Rightarrow> error + real" where
  "Usp_root Usp chi0 n U =
     ebind (chi_rpa_mw chi0 Usp) (\<lambda>chi.
     ebind (trace_chi chi) (\<lambda>tr_chi_sp.
       if U = 0 then Inl ZeroDivisionError
       else Inr (tr_chi_sp + 0.5 * Usp / U * n\<^sup>2 - n)))"

definition Uch_root :: "real \<Rightarrow> gf_kw \<Rightarrow> real \<Rightarrow> real \<Rightarrow> real \<Rightarrow> error + real" where
  "Uch_root Uch chi0 n U docc =
     ebind (chi_rpa_mw chi0 (- Uch)) (\<lambda>chi.
     ebind (trace_chi chi) (\<lambda>tr_chi.
       Inr (tr_chi - 2 * docc - n + n\<^sup>2)))"

text \<open>
  \<open>scipy.optimize.brentq(f, a, b, args, xtol)\<close> is external and enters as the parameter
  \<open>brentq f a b xtol\<close>; it raises when it finds no sign change. Evaluating the container
  at a point of the Brillouin zone, \<open>chi0([np.pi, np.pi, 0], 0)\<close>, is the library's
  interpolation and enters as the parameter \<open>gf_call\<close>.

  \<^verbatim>\<open>def solve_tpsc(chi0, U, n):
      Uc = 2/chi0([np.pi,np.pi,0],0).real
      Usp = brentq(Usp_root, 0, Uc-1e-6, args=(chi0, n, U), xtol=1e-2)
      docc = 0.25 * Usp / U * n**2
      Uch = brentq(Uch_root, 0, 100, args=(chi0, n, U, docc), xtol=1e-2)
      return Usp, Uch, docc, Uc\<close>
\<close>

type_synonym brentq_t = "(real \<Rightarrow> error + real) \<Rightarrow> real \<Rightarrow> real \<Rightarrow> real \<Rightarrow> error + real"

type_synonym gf_call_t = "gf_kw \<Rightarrow> real list \<Rightarrow> int \<Rightarrow> complex"

definition solve_tpsc ::
  "brentq_t \<Rightarrow> gf_call_t \<Rightarrow> gf_kw \<Rightarrow> real \<Rightarrow> real \<Rightarrow> error + (real \<times> real \<times> real \<times> real)" where
  "solve_tpsc brentq gf_call chi0 U n =
     ebind (let d = Re (gf_call chi0 [pi, pi, 0] 0) in
            if d = 0 then Inl ZeroDivisionError else Inr (2 / d)) (\<lambda>Uc.
     ebind (brentq (\<lambda>x. Usp_root x chi0 n U) 0 (Uc - 1 / 10 ^ 6) (1 / 100)) (\<lambda>Usp.
     ebind (if U = 0 then Inl ZeroDivisionError else Inr (0.25 * Usp / U * n\<^sup>2)) (\<lambda>docc.
     ebind (brentq (\<lambda>x. Uch_root x chi0 n U docc) 0 100 (1 / 100)) (\<lambda>Uch.
       Inr (Usp, Uch, docc, Uc)))))"

section \<open>Mermin-Wagner notebook: the Lindhard bubble\<close>

text \<open>
  The bubble is an inline C++ cell. A function on the mesh (r, tau) has the lattice mesh,
  the imaginary-time mesh (inverse temperature, statistic, number of points) and one
  value for every lattice point and time index; a fresh container is zero everywhere.
\<close>

type_synonym lattice_point = "int \<times> int \<times> int"

datatype statistic = Fermion | Boson

record imtime_mesh =
  tau_beta :: real
  tau_statistic :: statistic
  tau_size :: nat

record gf_rt =
  r_mesh :: "lattice_point list"
  t_mesh :: imtime_mesh
  rt_data :: "lattice_point \<times> nat \<Rightarrow> complex"

text \<open>
  What the cell calls in the library: the Fourier transform in both directions
  (\<open>make_gf_from_fourier<0,1>\<close>), the evaluation \<open>grt(r, tau)\<close> of a container at a
  lattice point and a time, and the time a mesh point stands for. They are parameters.
\<close>

record triqs_gfs =
  make_gf_from_fourier_kw :: "gf_kw \<Rightarrow> gf_rt"
  make_gf_from_fourier_rt :: "gf_rt \<Rightarrow> gf_kw"
  gf_rt_call :: "gf_rt \<Rightarrow> lattice_point \<Rightarrow> real \<Rightarrow> complex"
  tau_value :: "imtime_mesh \<Rightarrow> nat \<Rightarrow> real"

definition neg_point :: "lattice_point \<Rightarrow> lattice_point" where
  "neg_point r = (case r of (x, y, z) \<Rightarrow> (- x, - y, - z))"

text \<open>
  \<^verbatim>\<open>g_k_w_type bubble(g_k_w_type g0) {
      auto grt = make_gf_from_fourier<0,1>(g0);
      auto [mr, mt] = grt.mesh();
      double beta = mt.domain().beta;
      auto mtb = gf_mesh<imtime>{beta, Boson, mt.size()};
      auto chi0 = g_r_t_type{{mr, mtb}};
      for (auto const &r : mr)
          for (auto const &t : mtb)
              chi0[r, t] = 2*grt(-r, beta - t) * grt(r, t);
      return make_gf_from_fourier<0,1>(chi0);
  }\<close>
  \<open>chi0_fill\<close> is the assignment in the loop body, \<open>bubble_chi0\<close> the container handed
  to the second transform.
\<close>

definition chi0_fill ::
  "triqs_gfs \<Rightarrow> gf_rt \<Rightarrow> real \<Rightarrow> imtime_mesh \<Rightarrow> lattice_point \<Rightarrow> nat \<Rightarrow> gf_rt \<Rightarrow> gf_rt" where
  "chi0_fill lib grt beta mtb r t chi0 =
     chi0\<lparr>rt_data := (rt_data chi0)
       ((r, t) := 2 * gf_rt_call lib grt (neg_point r) (beta - tau_value lib mtb t)
                    * gf_rt_call lib grt r (tau_value lib mtb t))\<rparr>"

definition bubble_chi0 :: "triqs_gfs \<Rightarrow> gf_kw \<Rightarrow> gf_rt" where
  "bubble_chi0 lib g0 =
     (let grt = make_gf_from_fourier_kw lib g0;
          mr = r_mesh grt;
          mt = t_mesh grt;
          beta = tau_beta mt;
          mtb = \<lparr>tau_beta = beta, tau_statistic = Boson, tau_size = tau_size mt\<rparr>;
          chi0 = \<lparr>r_mesh = mr, t_mesh = mtb, rt_data = (\<lambda>_. 0)\<rparr>
      in fold (\<lambda>r. fold (chi0_fill lib grt beta mtb r) [0..<tau_size mtb]) mr chi0)"

definition bubble :: "triqs_gfs \<Rightarrow> gf_kw \<Rightarrow> gf_kw" where
  "bubble lib g0 = make_gf_from_fourier_rt lib (bubble_chi0 lib g0)"

section \<open>Valence-bond DMFT notebook: the local Hamiltonian\<close>

text \<open>
  The many-body operators are the library's: \<open>c(block, index)\<close>, \<open>dagger\<close>, sums,
  products and real multiples. They are taken from any real algebra with unit, with
  \<open>c\<close> and \<open>dagger\<close> as parameters.

  \<^verbatim>\<open>cn, cn_dag, nn = {}, {}, {}
  for spin in ['up','down']:
      cn['1-%s'%spin] = (c('even-%s'%spin,0) + c('odd-%s'%spin,0)) / np.sqrt(2)
      cn['2-%s'%spin] = (c('even-%s'%spin,0) - c('odd-%s'%spin,0)) / np.sqrt(2)
      nn['1-%s'%spin] = dagger(cn['1-%s'%spin]) * cn['1-%s'%spin]
      nn['2-%s'%spin] = dagger(cn['2-%s'%spin]) * cn['2-%s'%spin]

  h_loc = U * (nn['1-up'] * nn['1-down'] + nn['2-up'] * nn['2-down'])\<close>
\<close>

definition site_step ::
  "(string \<Rightarrow> nat \<Rightarrow> 'a::real_algebra_1) \<Rightarrow> ('a \<Rightarrow> 'a) \<Rightarrow> string
     \<Rightarrow> (string \<rightharpoonup> 'a) \<times> (string \<rightharpoonup> 'a) \<Rightarrow> error + (string \<rightharpoonup> 'a) \<times> (string \<rightharpoonup> 'a)" where
  "site_step c dagger spin st =
     (case st of (cn, nn) \<Rightarrow>
        let cn = cn(''1-'' @ spin \<mapsto> (c (''even-'' @ spin) 0 + c (''odd-'' @ spin) 0) /\<^sub>R sqrt 2);
            cn = cn(''2-'' @ spin \<mapsto> (c (''even-'' @ spin) 0 - c (''odd-'' @ spin) 0) /\<^sub>R sqrt 2)
        in ebind (dict_get cn (''1-'' @ spin)) (\<lambda>a1.
             let nn = nn(''1-'' @ spin \<mapsto> dagger a1 * a1)
             in ebind (dict_get cn (''2-'' @ spin)) (\<lambda>a2.
                  Inr (cn, nn(''2-'' @ spin \<mapsto> dagger a2 * a2)))))"

definition site_operators ::
  "(string \<Rightarrow> nat \<Rightarrow> 'a::real_algebra_1) \<Rightarrow> ('a \<Rightarrow> 'a)
     \<Rightarrow> error + (string \<rightharpoonup> 'a) \<times> (string \<rightharpoonup> 'a)" where
  "site_operators c dagger = for_each [''up'', ''down''] (site_step c dagger) (Map.empty, Map.empty)"

definition h_loc ::
  "(string \<Rightarrow> nat \<Rightarrow> 'a::real_algebra_1) \<Rightarrow> ('a \<Rightarrow> 'a) \<Rightarrow> real \<Rightarrow> error + 'a" where
  "h_loc c dagger U =
     ebind (site_operators c dagger) (\<lambda>st. case st of (cn, nn) \<Rightarrow>
     ebind (dict_get nn ''1-up'') (\<lambda>n1u.
     ebind (dict_get nn ''1-down'') (\<lambda>n1d.
     ebind (dict_get nn ''2-up'') (\<lambda>n2u.
     ebind (dict_get nn ''2-down'') (\<lambda>n2d.
       Inr (U *\<^sub>R (n1u * n1d + n2u * n2d)))))))"

section \<open>Valence-bond DMFT notebook: the self-consistency loop\<close>

text \<open>
  A block Green's function on the Matsubara mesh has one 1x1 block for every name; a
  block is the list of its values on the mesh, \<open>iOmega_n\<close> the list of the mesh's own
  values. Sums, real multiples and \<open>inverse\<close> act value by value; all containers of the
  notebook live on the one mesh of the solver, so the lists have the same length.
\<close>

type_synonym gf_iw = "complex list"

type_synonym block_gf = "string \<rightharpoonup> gf_iw"

definition gf_iw_inverse :: "gf_iw \<Rightarrow> error + gf_iw" where
  "gf_iw_inverse g = (if 0 \<in> set g then Inl NonFinite else Inr (map inverse g))"

definition gf_iw_add :: "gf_iw \<Rightarrow> gf_iw \<Rightarrow> gf_iw" where
  "gf_iw_add g h = map2 (\<lambda>x y. x + y) g h"

definition gf_iw_scale :: "real \<Rightarrow> gf_iw \<Rightarrow> gf_iw" where
  "gf_iw_scale a g = map (\<lambda>z. of_real a * z) g"

text \<open>
  \<open>G.zero()\<close> and \<open>S.Sigma_iw << mu\<close>.
\<close>

definition block_zero :: "block_gf \<Rightarrow> block_gf" where
  "block_zero B = (\<lambda>k. map_option (map (\<lambda>_. 0)) (B k))"

definition block_const :: "real \<Rightarrow> block_gf \<Rightarrow> block_gf" where
  "block_const a B = (\<lambda>k. map_option (map (\<lambda>_. of_real a)) (B k))"

text \<open>
  The notebook's parameters and the histogram of the second exercise: \<open>rho\<close>, \<open>epsilon\<close>
  and \<open>delta\<close> are dictionaries over the patches.
\<close>

record dca_params =
  mu :: real
  n_bins :: nat
  rho :: "string \<rightharpoonup> real list"
  epsilon :: "string \<rightharpoonup> real list"
  delta :: "string \<rightharpoonup> real"
  iOmega_n :: "complex list"

text \<open>
  \<^verbatim>\<open>G.zero()
  for spin in ['up', 'down']:
      for patch in ['even', 'odd']:
          # Hilbert transform
          for i in range(n_bins):
              G['%s-%s'%(patch,spin)] += rho[patch][i] * delta[patch] *
                  inverse(iOmega_n + mu - epsilon[patch][i] - S.Sigma_iw['%s-%s'%(patch,spin)])\<close>
  \<open>hilbert_denominator\<close> is the argument of \<open>inverse\<close>, \<open>hilbert_step\<close> the body of the
  innermost loop.
\<close>

definition hilbert_denominator :: "complex list \<Rightarrow> real \<Rightarrow> real \<Rightarrow> gf_iw \<Rightarrow> gf_iw" where
  "hilbert_denominator iw m e sig = map2 (\<lambda>w s. w + of_real m - of_real e - s) iw sig"

definition hilbert_step ::
  "dca_params \<Rightarrow> block_gf \<Rightarrow> string \<Rightarrow> string \<Rightarrow> nat \<Rightarrow> block_gf \<Rightarrow> error + block_gf" where
  "hilbert_step P Sigma_blk name patch i G =
     ebind (dict_get G name) (\<lambda>g.
     ebind (dict_get (rho P) patch) (\<lambda>rho_p.
     ebind (list_get rho_p i) (\<lambda>r.
     ebind (dict_get (delta P) patch) (\<lambda>d.
     ebind (dict_get (epsilon P) patch) (\<lambda>eps_p.
     ebind (list_get eps_p i) (\<lambda>e.
     ebind (dict_get Sigma_blk name) (\<lambda>sig.
     ebind (gf_iw_inverse (hilbert_denominator (iOmega_n P) (mu P) e sig)) (\<lambda>inv.
       Inr (G(name \<mapsto> gf_iw_add g (gf_iw_scale (r * d) inv)))))))))))"

definition dca_G :: "dca_params \<Rightarrow> block_gf \<Rightarrow> block_gf \<Rightarrow> error + block_gf" where
  "dca_G P Sigma_blk G =
     for_each [''up'', ''down''] (\<lambda>spin.
       for_each [''even'', ''odd''] (\<lambda>patch.
         for_each [0..<n_bins P] (hilbert_step P Sigma_blk (patch @ ''-'' @ spin) patch)))
       (block_zero G)"

text \<open>
  \<^verbatim>\<open>for block, g0 in S.G0_iw:
      g0 << inverse(inverse(G[block]) + S.Sigma_iw[block])\<close>
  The blocks of \<open>S.G0_iw\<close> are those named in \<open>gf_struct\<close>, in that order.
\<close>

definition weiss_step :: "block_gf \<Rightarrow> block_gf \<Rightarrow> string \<Rightarrow> block_gf \<Rightarrow> error + block_gf" where
  "weiss_step G Sigma_blk block G0 =
     ebind (dict_get G block) (\<lambda>g.
     ebind (gf_iw_inverse g) (\<lambda>gi.
     ebind (dict_get Sigma_blk block) (\<lambda>sig.
     ebind (gf_iw_inverse (gf_iw_add gi sig)) (\<lambda>g0.
       Inr (G0(block \<mapsto> g0))))))"

text \<open>
  The impurity solver is external: of its object the notebook reads and writes
  \<open>G0_iw\<close>, \<open>Sigma_iw\<close> and \<open>G_iw\<close>, and \<open>S.solve\<close> enters as the parameter
  \<open>solve h_int args\<close>. The archive \<open>results.h5\<close> is a dictionary from keys to stored
  objects, and \<open>mpi.is_master_node()\<close> is a flag of the process.
\<close>

record solver =
  gf_struct :: "string list"
  G0_iw :: block_gf
  Sigma_iw :: block_gf
  G_iw :: block_gf

record solve_args =
  n_cycles :: nat
  length_cycle :: nat
  n_warmup_cycles :: nat
  measure_G_l :: bool

type_synonym archive = "string \<rightharpoonup> block_gf"

record dmft_state =
  G_loc :: block_gf
  S :: solver
  results_h5 :: archive

text \<open>
  \<open>'%i' % it\<close> for an iteration number.
\<close>

fun digit_char :: "nat \<Rightarrow> char" where
  "digit_char n = char_of (48 + n)"

function str_of_nat :: "nat \<Rightarrow> string" where
  "str_of_nat n = (if n < 10 then [digit_char n] else str_of_nat (n div 10) @ [digit_char (n mod 10)])"
  by pat_completeness auto
termination
  by (relation "measure (\<lambda>n. n)") auto

declare str_of_nat.simps [simp del]

text \<open>
  \<^verbatim>\<open>S.solve(h_int = h_loc, n_cycles = 10000, length_cycle = 10,
          n_warmup_cycles = 1000, measure_G_l = True)

  if mpi.is_master_node():
      with HDFArchive("results.h5") as A:
          A['G_iw-%i'%it] = S.G_iw
          A['Sigma_iw-%i'%it] = S.Sigma_iw
          A['G0_iw-%i'%it] = S.G0_iw\<close>
  One pass of the loop body, from \<open>G.zero()\<close> to the archive.
\<close>

definition dmft_iteration ::
  "('h \<Rightarrow> solve_args \<Rightarrow> solver \<Rightarrow> solver) \<Rightarrow> bool \<Rightarrow> dca_params \<Rightarrow> 'h \<Rightarrow> nat \<Rightarrow> dmft_state
     \<Rightarrow> error + dmft_state" where
  "dmft_iteration solve is_master_node P h_int it st =
     ebind (dca_G P (Sigma_iw (S st)) (G_loc st)) (\<lambda>G.
     ebind (for_each (gf_struct (S st)) (weiss_step G (Sigma_iw (S st))) (G0_iw (S st))) (\<lambda>G0.
       let S1 = solve h_int
                  \<lparr>n_cycles = 10000, length_cycle = 10, n_warmup_cycles = 1000, measure_G_l = True\<rparr>
                  ((S st)\<lparr>G0_iw := G0\<rparr>);
           A = results_h5 st;
           A1 = (if is_master_node
                 then A(''G_iw-'' @ str_of_nat it \<mapsto> G_iw S1,
                        ''Sigma_iw-'' @ str_of_nat it \<mapsto> Sigma_iw S1,
                        ''G0_iw-'' @ str_of_nat it \<mapsto> G0_iw S1)
                 else A)
       in Inr \<lparr>G_loc = G, S = S1, results_h5 = A1\<rparr>))"

text \<open>
  \<^verbatim>\<open>G = S.G0_iw.copy()
  S.Sigma_iw << mu
  n_loops = 10
  for it in range(n_loops):
      ...\<close>
\<close>

definition n_loops :: nat where
  "n_loops = 10"

definition dmft_loop ::
  "('h \<Rightarrow> solve_args \<Rightarrow> solver \<Rightarrow> solver) \<Rightarrow> bool \<Rightarrow> dca_params \<Rightarrow> 'h \<Rightarrow> solver \<Rightarrow> archive
     \<Rightarrow> error + dmft_state" where
  "dmft_loop solve is_master_node P h_int S0 A0 =
     for_each [0..<n_loops] (dmft_iteration solve is_master_node P h_int)
       \<lparr>G_loc = G0_iw S0, S = S0\<lparr>Sigma_iw := block_const (mu P) (Sigma_iw S0)\<rparr>, results_h5 = A0\<rparr>"

section \<open>Green's-function notebook: the inline C++ cell\<close>

text \<open>
  \<^verbatim>\<open>gf<imfreq> demo(double beta) {
      int n_freq = 1000;
      clef::placeholder<0> iw_;
      auto g_iw = gf<imfreq>{{beta, Fermion, n_freq}, {1, 1}};
      g_iw(iw_) << 1 / (iw_ + 2);
      auto f = h5::file("gf.h5", 'w');
      h5_write(f, "g_iw", g_iw);
      return g_iw;
  }\<close>
  The values of the Matsubara mesh are the library's (the parameter \<open>imfreq_mesh\<close>);
  they are imaginary, so \<open>iw_ + 2\<close> is never zero. The file is opened for writing, so
  the archive \<open>gf.h5\<close> the cell leaves holds what the cell wrote. The result is the pair
  of the returned container and that archive.
\<close>

definition demo ::
  "(real \<Rightarrow> statistic \<Rightarrow> nat \<Rightarrow> complex list) \<Rightarrow> real \<Rightarrow> gf_iw \<times> (string \<rightharpoonup> gf_iw)" where
  "demo imfreq_mesh beta =
     (let n_freq = 1000;
          g_iw = map (\<lambda>iw. 1 / (iw + 2)) (imfreq_mesh beta Fermion n_freq)
      in (g_iw, [''g_iw'' \<mapsto> g_iw]))"

section \<open>Notions used in the statements\<close>

text \<open>
  The external root finder, started at \<open>x0\<close> with \<open>xtol = 1e-2\<close>, returns \<open>x\<close>, and
  \<open>x\<close> is a root of the function it was given.
\<close>

definition fsolve_root :: "fsolve_t \<Rightarrow> (real list \<Rightarrow> error + real list) \<Rightarrow> real \<Rightarrow> real \<Rightarrow> bool" where
  "fsolve_root fsolve f x0 x \<longleftrightarrow> fsolve f [x0] (1 / 100) = Inr [x] \<and> f [x] = Inr [0]"

definition brentq_root :: "brentq_t \<Rightarrow> (real \<Rightarrow> error + real) \<Rightarrow> real \<Rightarrow> real \<Rightarrow> real \<Rightarrow> bool" where
  "brentq_root brentq f a b x \<longleftrightarrow> brentq f a b (1 / 100) = Inr x \<and> f x = Inr 0"

text \<open>
  The Hilbert transform as a quadrature over the histogram bins, and what one run of the
  three nested loops needs to go through without an exception or a division by zero:
  every block, patch and bin is there, and no denominator vanishes.
\<close>

definition hilbert_quadrature ::
  "complex list \<Rightarrow> real \<Rightarrow> real list \<Rightarrow> real \<Rightarrow> real list \<Rightarrow> gf_iw \<Rightarrow> nat \<Rightarrow> gf_iw" where
  "hilbert_quadrature iw m r d e sig n =
     map (\<lambda>j. \<Sum>i<n. of_real (r ! i * d) * inverse (iw ! j + of_real m - of_real (e ! i) - sig ! j))
       [0..<length iw]"

definition dca_block :: "dca_params \<Rightarrow> block_gf \<Rightarrow> string \<Rightarrow> string \<Rightarrow> gf_iw" where
  "dca_block P Sig patch spin =
     hilbert_quadrature (iOmega_n P) (mu P) (the (rho P patch)) (the (delta P patch))
       (the (epsilon P patch)) (the (Sig (patch @ ''-'' @ spin))) (n_bins P)"

definition dca_wf :: "dca_params \<Rightarrow> block_gf \<Rightarrow> block_gf \<Rightarrow> bool" where
  "dca_wf P Sig G \<longleftrightarrow>
     (\<forall>spin\<in>{''up'', ''down''}. \<forall>patch\<in>{''even'', ''odd''}.
        case (G (patch @ ''-'' @ spin), Sig (patch @ ''-'' @ spin),
              rho P patch, epsilon P patch, delta P patch) of
          (Some g, Some sig, Some r, Some e, Some d) \<Rightarrow>
             length g = length (iOmega_n P) \<and> length sig = length (iOmega_n P)
             \<and> n_bins P \<le> length r \<and> n_bins P \<le> length e
             \<and> (\<forall>i<n_bins P. \<forall>j<length (iOmega_n P).
                   iOmega_n P ! j + of_real (mu P) - of_real (e ! i) - sig ! j \<noteq> 0)
        | _ \<Rightarrow> False)"

text \<open>
  What the update of one block of the Weiss field needs: the block is there in \<open>G\<close> and
  in \<open>Sigma\<close>, and neither \<open>G\<close> nor \<open>inverse(G) + Sigma\<close> has a zero value.
\<close>

definition weiss_wf :: "block_gf \<Rightarrow> block_gf \<Rightarrow> string \<Rightarrow> bool" where
  "weiss_wf G Sig block \<longleftrightarrow>
     (case (G block, Sig block) of
        (Some g, Some sig) \<Rightarrow>
           length g = length sig \<and> (\<forall>j<length g. g ! j \<noteq> 0 \<and> inverse (g ! j) + sig ! j \<noteq> 0)
      | _ \<Rightarrow> False)"

text \<open>
  The value the loop of the bubble assigns at a lattice point and a time index.
\<close>

definition fill_value :: "triqs_gfs \<Rightarrow> gf_rt \<Rightarrow> real \<Rightarrow> imtime_mesh \<Rightarrow> lattice_point \<Rightarrow> nat \<Rightarrow> complex" where
  "fill_value lib grt beta mtb r t =
     2 * gf_rt_call lib grt (neg_point r) (beta - tau_value lib mtb t)
       * gf_rt_call lib grt r (tau_value lib mtb t)"

text \<open>
  The keys one iteration writes, the keys of the archive a run leaves (none when the run
  ends in an exception), and one block of a result.
\<close>

definition archive_keys :: "nat \<Rightarrow> string set" where
  "archive_keys it =
     {''G_iw-'' @ str_of_nat it, ''Sigma_iw-'' @ str_of_nat it, ''G0_iw-'' @ str_of_nat it}"

definition archive_dom :: "error + dmft_state \<Rightarrow> string set" where
  "archive_dom r = (case r of Inl e \<Rightarrow> {} | Inr st \<Rightarrow> dom (results_h5 st))"

definition block_of :: "error + block_gf \<Rightarrow> string \<Rightarrow> error + gf_iw" where
  "block_of r k = ebind r (\<lambda>G. dict_get G k)"

text \<open>
  The anticommutator, the laws of \<open>dagger\<close>, and the canonical anticommutation relations
  of a list of annihilation operators.
\<close>

definition acomm :: "'a::real_algebra_1 \<Rightarrow> 'a \<Rightarrow> 'a" where
  "acomm x y = x * y + y * x"

definition is_dagger :: "('a::real_algebra_1 \<Rightarrow> 'a) \<Rightarrow> bool" where
  "is_dagger dg \<longleftrightarrow>
     (\<forall>x y. dg (x + y) = dg x + dg y) \<and> (\<forall>x y. dg (x * y) = dg y * dg x)
     \<and> (\<forall>r x. dg (r *\<^sub>R x) = r *\<^sub>R dg x) \<and> (\<forall>x. dg (dg x) = x)"

definition canonical :: "('a::real_algebra_1 \<Rightarrow> 'a) \<Rightarrow> 'a list \<Rightarrow> bool" where
  "canonical dg ops \<longleftrightarrow>
     (\<forall>i<length ops. \<forall>j<length ops.
        acomm (ops ! i) (ops ! j) = 0
        \<and> acomm (ops ! i) (dg (ops ! j)) = (if i = j then 1 else 0))"

section \<open>Concrete inputs\<close>

text \<open>
  One-point susceptibilities, and stand-ins for the external root finders that probe a
  few candidates and return one only if it is a root (inside the bracket, for
  \<open>brentq\<close>).
\<close>

definition chi0_unit :: gf_kw where
  "chi0_unit = \<lparr>mesh_len = 1, mesh_beta = 1, gf_data = [1]\<rparr>"

definition chi0_quarter :: gf_kw where
  "chi0_quarter = \<lparr>mesh_len = 1, mesh_beta = 1, gf_data = [1 / 4]\<rparr>"

definition chi0_half :: gf_kw where
  "chi0_half = \<lparr>mesh_len = 1, mesh_beta = 1, gf_data = [1 / 2]\<rparr>"

definition fsolve_probe :: fsolve_t where
  "fsolve_probe f x0 xtol =
     (if f [0] = Inr [0] then Inr [0] else if f [4] = Inr [0] then Inr [4] else Inl SolverError)"

definition brentq_probe :: brentq_t where
  "brentq_probe f a b xtol =
     (if a \<le> b \<and> f a = Inr 0 then Inr a
      else if a \<le> 4 \<and> 4 \<le> b \<and> f 4 = Inr 0 then Inr 4
      else Inl SolverError)"

definition gf_call_first :: gf_call_t where
  "gf_call_first g k i = (case gf_data g of [] \<Rightarrow> 0 | z # _ \<Rightarrow> z)"




text \<open>
  A library whose transforms hand the data through on a one-site lattice with two time
  points, and a constant Green's function.
\<close>

definition lib_probe :: triqs_gfs where
  "lib_probe =
     \<lparr>make_gf_from_fourier_kw = (\<lambda>g. \<lparr>r_mesh = [(0, 0, 0)],
          t_mesh = \<lparr>tau_beta = mesh_beta g, tau_statistic = Fermion, tau_size = 2\<rparr>,
          rt_data = (\<lambda>_. case gf_data g of [] \<Rightarrow> 0 | z # _ \<Rightarrow> z)\<rparr>),
      make_gf_from_fourier_rt = (\<lambda>c. \<lparr>mesh_len = 1, mesh_beta = tau_beta (t_mesh c),
          gf_data = map (\<lambda>t. rt_data c ((0, 0, 0), t)) [0..<tau_size (t_mesh c)]\<rparr>),
      gf_rt_call = (\<lambda>g r t. rt_data g (r, 0)),
      tau_value = (\<lambda>m t. tau_beta m * real t)\<rparr>"

definition g0_three :: gf_kw where
  "g0_three = \<lparr>mesh_len = 1, mesh_beta = 1, gf_data = [3]\<rparr>"

text \<open>
  A DMFT run with one Matsubara frequency and two histogram bins per patch, and a solver
  that returns the Weiss field as the Green's function (no interaction).
\<close>

definition names4 :: "string list" where
  "names4 = [''even-up'', ''odd-up'', ''even-down'', ''odd-down'']"

definition blk :: "complex \<Rightarrow> block_gf" where
  "blk z = (\<lambda>k. if k \<in> set names4 then Some [z] else None)"

definition patch_dict :: "'v \<Rightarrow> (string \<rightharpoonup> 'v)" where
  "patch_dict v = (\<lambda>p. if p = ''even'' \<or> p = ''odd'' then Some v else None)"

definition P_small :: dca_params where
  "P_small = \<lparr>mu = 1, n_bins = 2, rho = patch_dict [1, 2], epsilon = patch_dict [0, 1],
      delta = patch_dict (1 / 2), iOmega_n = [\<i>]\<rparr>"

definition S_small :: solver where
  "S_small = \<lparr>gf_struct = names4, G0_iw = blk 1, Sigma_iw = blk 0, G_iw = blk 0\<rparr>"

definition solve_free :: "unit \<Rightarrow> solve_args \<Rightarrow> solver \<Rightarrow> solver" where
  "solve_free h a s = s\<lparr>G_iw := G0_iw s\<rparr>"

definition small_inv :: "dmft_state \<Rightarrow> bool" where
  "small_inv st \<longleftrightarrow>
     (\<forall>k\<in>set names4. \<exists>z. G_loc st k = Some [z]) \<and> Sigma_iw (S st) = blk 1
     \<and> gf_struct (S st) = names4"

text \<open>
  Four fermionic modes on their Fock space: operators are 16 x 16 real matrices, indexed
  by the occupations of (even-up, odd-up, even-down, odd-down); \<open>adj\<close> is the transpose,
  the annihilation operators carry the Jordan-Wigner signs.
\<close>

type_synonym occ = "bool \<times> bool \<times> bool \<times> bool"

datatype fock_op = Mat (ent: "occ \<Rightarrow> occ \<Rightarrow> real")

instantiation fock_op :: real_algebra_1

begin

definition zero_fock_op :: fock_op where
  "zero_fock_op = Mat (\<lambda>m n. 0)"

definition one_fock_op :: fock_op where
  "one_fock_op = Mat (\<lambda>m n. if m = n then 1 else 0)"

definition plus_fock_op :: "fock_op \<Rightarrow> fock_op \<Rightarrow> fock_op" where
  "plus_fock_op A B = Mat (\<lambda>m n. ent A m n + ent B m n)"

definition uminus_fock_op :: "fock_op \<Rightarrow> fock_op" where
  "uminus_fock_op A = Mat (\<lambda>m n. - ent A m n)"

definition minus_fock_op :: "fock_op \<Rightarrow> fock_op \<Rightarrow> fock_op" where
  "minus_fock_op A B = Mat (\<lambda>m n. ent A m n - ent B m n)"

definition times_fock_op :: "fock_op \<Rightarrow> fock_op \<Rightarrow> fock_op" where
  "times_fock_op A B = Mat (\<lambda>m n. \<Sum>k\<in>UNIV. ent A m k * ent B k n)"

definition scaleR_fock_op :: "real \<Rightarrow> fock_op \<Rightarrow> fock_op" where
  "scaleR_fock_op r A = Mat (\<lambda>m n. r * ent A m n)"

instance
proof
  fix a b c :: fock_op and r s :: real
  show "a + b + c = a + (b + c)"
    by (simp add: plus_fock_op_def add.assoc)
  show "a + b = b + a"
    by (simp add: plus_fock_op_def add.commute)
  show "0 + a = a"
    by (simp add: plus_fock_op_def zero_fock_op_def)
  show "- a + a = 0"
    by (simp add: plus_fock_op_def uminus_fock_op_def zero_fock_op_def)
  show "a - b = a + - b"
    by (simp add: plus_fock_op_def uminus_fock_op_def minus_fock_op_def)
  show "r *\<^sub>R (a + b) = r *\<^sub>R a + r *\<^sub>R b"
    by (simp add: plus_fock_op_def scaleR_fock_op_def distrib_left)
  show "(r + s) *\<^sub>R a = r *\<^sub>R a + s *\<^sub>R a"
    by (simp add: plus_fock_op_def scaleR_fock_op_def distrib_right)
  show "r *\<^sub>R s *\<^sub>R a = (r * s) *\<^sub>R a"
    by (simp add: scaleR_fock_op_def mult.assoc)
  show "1 *\<^sub>R a = a"
    by (simp add: scaleR_fock_op_def)
  show "a * b * c = a * (b * c)"
  proof -
    have "(\<Sum>k\<in>UNIV. (\<Sum>l\<in>UNIV. ent a m l * ent b l k) * ent c k n)
        = (\<Sum>l\<in>UNIV. ent a m l * (\<Sum>k\<in>UNIV. ent b l k * ent c k n))" for m n
    proof -
      have "(\<Sum>k\<in>UNIV. (\<Sum>l\<in>UNIV. ent a m l * ent b l k) * ent c k n)
          = (\<Sum>k\<in>UNIV. \<Sum>l\<in>UNIV. ent a m l * (ent b l k * ent c k n))"
        by (simp add: sum_distrib_right mult.assoc)
      also have "\<dots> = (\<Sum>l\<in>UNIV. \<Sum>k\<in>UNIV. ent a m l * (ent b l k * ent c k n))"
        by (rule sum.swap)
      also have "\<dots> = (\<Sum>l\<in>UNIV. ent a m l * (\<Sum>k\<in>UNIV. ent b l k * ent c k n))"
        by (simp add: sum_distrib_left)
      finally show ?thesis .
    qed
    then show ?thesis by (simp add: times_fock_op_def)
  qed
  show "(a + b) * c = a * c + b * c"
    by (simp add: times_fock_op_def plus_fock_op_def distrib_right sum.distrib)
  show "a * (b + c) = a * b + a * c"
    by (simp add: times_fock_op_def plus_fock_op_def distrib_left sum.distrib)
  show "1 * a = a"
    by (simp add: times_fock_op_def one_fock_op_def if_distrib [of "\<lambda>x. x * _"] sum.delta' cong: if_cong)
  show "a * 1 = a"
    by (simp add: times_fock_op_def one_fock_op_def if_distrib [of "\<lambda>x. _ * x"] sum.delta cong: if_cong)
  show "(0::fock_op) \<noteq> 1"
  proof
    assume "(0::fock_op) = 1"
    then have "ent 0 (False, False, False, False) (False, False, False, False)
             = ent 1 (False, False, False, False) (False, False, False, False)" by simp
    then show False by (simp add: zero_fock_op_def one_fock_op_def)
  qed
  show "r *\<^sub>R a * b = r *\<^sub>R (a * b)"
    by (simp add: times_fock_op_def scaleR_fock_op_def sum_distrib_left mult.assoc)
  show "a * r *\<^sub>R b = r *\<^sub>R (a * b)"
    by (simp add: times_fock_op_def scaleR_fock_op_def sum_distrib_left mult.left_commute)
qed

end

definition adj :: "fock_op \<Rightarrow> fock_op" where
  "adj A = Mat (\<lambda>m n. ent A n m)"

definition mono :: "(occ \<Rightarrow> real) \<Rightarrow> (occ \<Rightarrow> occ) \<Rightarrow> fock_op" where
  "mono s f = Mat (\<lambda>m n. if m = f n then s n else 0)"

definition sgn_occ :: "bool \<Rightarrow> real" where
  "sgn_occ b = (if b then - 1 else 1)"

definition ann1 :: fock_op where
  "ann1 = mono (\<lambda>(n1, n2, n3, n4). if n1 then 1 else 0) (\<lambda>(n1, n2, n3, n4). (False, n2, n3, n4))"

definition ann2 :: fock_op where
  "ann2 = mono (\<lambda>(n1, n2, n3, n4). if n2 then sgn_occ n1 else 0)
               (\<lambda>(n1, n2, n3, n4). (n1, False, n3, n4))"

definition ann3 :: fock_op where
  "ann3 = mono (\<lambda>(n1, n2, n3, n4). if n3 then sgn_occ n1 * sgn_occ n2 else 0)
               (\<lambda>(n1, n2, n3, n4). (n1, n2, False, n4))"

definition ann4 :: fock_op where
  "ann4 = mono (\<lambda>(n1, n2, n3, n4). if n4 then sgn_occ n1 * sgn_occ n2 * sgn_occ n3 else 0)
               (\<lambda>(n1, n2, n3, n4). (n1, n2, n3, False))"

definition cre1 :: fock_op where
  "cre1 = mono (\<lambda>(n1, n2, n3, n4). if n1 then 0 else 1) (\<lambda>(n1, n2, n3, n4). (True, n2, n3, n4))"

definition cre2 :: fock_op where
  "cre2 = mono (\<lambda>(n1, n2, n3, n4). if n2 then 0 else sgn_occ n1)
               (\<lambda>(n1, n2, n3, n4). (n1, True, n3, n4))"

definition cre3 :: fock_op where
  "cre3 = mono (\<lambda>(n1, n2, n3, n4). if n3 then 0 else sgn_occ n1 * sgn_occ n2)
               (\<lambda>(n1, n2, n3, n4). (n1, n2, True, n4))"

definition cre4 :: fock_op where
  "cre4 = mono (\<lambda>(n1, n2, n3, n4). if n4 then 0 else sgn_occ n1 * sgn_occ n2 * sgn_occ n3)
               (\<lambda>(n1, n2, n3, n4). (n1, n2, n3, True))"

definition c_jw :: "string \<Rightarrow> nat \<Rightarrow> fock_op" where
  "c_jw name i =
     (if name = ''even-up'' then ann1 else if name = ''odd-up'' then ann2
      else if name = ''even-down'' then ann3 else if name = ''odd-down'' then ann4 else 0)"

section \<open>Auxiliary facts\<close>

lemma ebind_Inr [simp]: "ebind (Inr x) f = f x" by (simp add: ebind_def)

lemma ebind_Inl [simp]: "ebind (Inl e) f = Inl e" by (simp add: ebind_def)

lemma ebind_eq_Inr: "ebind m f = Inr y \<longleftrightarrow> (\<exists>x. m = Inr x \<and> f x = Inr y)"
  by (cases m) auto

lemma for_each_append:
  "for_each (xs @ ys) body s = ebind (for_each xs body s) (for_each ys body)"
  by (induction xs arbitrary: s) (auto simp: ebind_def split: sum.splits)

lemma dict_get_Some [simp]: "d k = Some v \<Longrightarrow> dict_get d k = Inr v"
  by (simp add: dict_get_def)

lemma list_get_lt [simp]: "i < length xs \<Longrightarrow> list_get xs i = Inr (xs ! i)"
  by (simp add: list_get_def)

lemma as_array_eq: "as_array r = Inr [d] \<longleftrightarrow> r = Inr d"
  by (cases r) (auto simp: as_array_def)

subsection \<open>The two conventions for the susceptibility\<close>

lemma map2_scale_left: "map2 (\<lambda>x y. x * y) (map (\<lambda>z. (c::complex) * z) xs) ys = map (\<lambda>z. c * z) (map2 (\<lambda>x y. x * y) xs ys)"
proof (induction xs arbitrary: ys)
  case Nil
  show ?case by simp
next
  case (Cons a xs)
  then show ?case by (cases ys) (simp_all add: mult_ac)
qed

lemma chi_rpa_mw_scale2:
  assumes "chi_rpa chi0 u = Inr chi"
  shows "chi_rpa_mw (gf_scale 2 chi0) u = Inr (gf_scale 2 chi)"
proof -
  let ?den = "gf_rsub 1 (gf_scale u chi0)"
  have den: "gf_rsub 1 (gf_scale (0.5 * u) (gf_scale 2 chi0)) = gf_scale 2 ?den\<lparr>gf_data := gf_data ?den\<rparr>"
    by (simp add: gf_rsub_def gf_scale_def)
  from assms obtain d where d: "gf_inverse ?den = Inr d" and chi: "chi = gf_mul chi0 d"
    by (auto simp: chi_rpa_def Let_def ebind_eq_Inr)
  from d have nz: "0 \<notin> set (gf_data ?den)" and dd: "d = ?den\<lparr>gf_data := map inverse (gf_data ?den)\<rparr>"
    by (auto simp: gf_inverse_def split: if_splits)
  have "gf_inverse (gf_rsub 1 (gf_scale (0.5 * u) (gf_scale 2 chi0)))
        = Inr ((gf_scale 2 ?den)\<lparr>gf_data := map inverse (gf_data ?den)\<rparr>)"
    using nz unfolding den by (simp add: gf_inverse_def)
  moreover have "gf_mul (gf_scale 2 chi0) ((gf_scale 2 ?den)\<lparr>gf_data := map inverse (gf_data ?den)\<rparr>)
        = gf_scale 2 chi"
    unfolding chi dd by (simp add: gf_mul_def gf_scale_def map2_scale_left)
  ultimately show ?thesis by (simp add: chi_rpa_mw_def)
qed

lemma trace_chi_scale2:
  assumes "trace_chi_kw chi = Inr t"
  shows "trace_chi (gf_scale 2 chi) = Inr (2 * t)"
proof -
  from assms have wf: "mesh_len chi \<noteq> 0" "mesh_beta chi \<noteq> 0"
    and t: "t = Re (sum_list (gf_data chi) / of_nat (mesh_len chi) / of_real (mesh_beta chi))"
    by (auto simp: trace_chi_kw_def Let_def split: if_splits)
  have "sum_list (map (\<lambda>z. 2 * z) (gf_data chi)) = 2 * sum_list (gf_data chi)"
    by (simp add: sum_list_const_mult)
  then show ?thesis using wf t
    by (simp add: trace_chi_def gf_scale_def Let_def)
qed

lemma chi_rpa_of_mw:
  assumes "chi_rpa_mw (gf_scale 2 chi0) u = Inr c"
  shows "\<exists>chi. chi_rpa chi0 u = Inr chi"
proof -
  have den: "gf_data (gf_rsub 1 (gf_scale (0.5 * u) (gf_scale 2 chi0)))
           = gf_data (gf_rsub 1 (gf_scale u chi0))"
    by (simp add: gf_rsub_def gf_scale_def)
  from assms have "0 \<notin> set (gf_data (gf_rsub 1 (gf_scale (0.5 * u) (gf_scale 2 chi0))))"
    by (auto simp: chi_rpa_mw_def ebind_eq_Inr gf_inverse_def split: if_splits)
  then have "0 \<notin> set (gf_data (gf_rsub 1 (gf_scale u chi0)))"
    unfolding den .
  then show ?thesis
    by (simp add: chi_rpa_def gf_inverse_def Let_def)
qed

lemma trace_chi_kw_cases:
  assumes "trace_chi (gf_scale 2 chi) = Inr s" and "trace_chi_kw chi \<noteq> Inl AssertionError"
  shows "\<exists>t. trace_chi_kw chi = Inr t"
  using assms by (auto simp: trace_chi_def trace_chi_kw_def gf_scale_def Let_def split: if_splits)

subsection \<open>The spin susceptibility at a vertex\<close>






subsection \<open>The fill loop of the bubble\<close>

lemma fill_inner:
  "fold (chi0_fill lib grt beta mtb r) ts chi0
   = chi0\<lparr>rt_data := (\<lambda>(r', t). if r' = r \<and> t \<in> set ts
        then fill_value lib grt beta mtb r' t else rt_data chi0 (r', t))\<rparr>"
proof (induction ts arbitrary: chi0)
  case Nil
  show ?case by simp
next
  case (Cons t ts)
  have e: "(chi0_fill lib grt beta mtb r t chi0)\<lparr>rt_data := X\<rparr> = chi0\<lparr>rt_data := X\<rparr>" for X
    by (simp add: chi0_fill_def)
  have f: "(\<lambda>(r', ta). if r' = r \<and> ta \<in> set ts then fill_value lib grt beta mtb r' ta
              else rt_data (chi0_fill lib grt beta mtb r t chi0) (r', ta))
         = (\<lambda>(r', ta). if r' = r \<and> ta \<in> set (t # ts) then fill_value lib grt beta mtb r' ta
              else rt_data chi0 (r', ta))"
    by (auto simp: fun_eq_iff chi0_fill_def fill_value_def)
  show ?case
    unfolding fold_Cons comp_apply Cons.IH e f ..
qed

lemma fill_outer:
  "fold (\<lambda>r. fold (chi0_fill lib grt beta mtb r) ts) rs chi0
   = chi0\<lparr>rt_data := (\<lambda>(r, t). if r \<in> set rs \<and> t \<in> set ts
        then fill_value lib grt beta mtb r t else rt_data chi0 (r, t))\<rparr>"
proof (induction rs arbitrary: chi0)
  case Nil
  show ?case by simp
next
  case (Cons r rs)
  let ?c1 = "fold (chi0_fill lib grt beta mtb r) ts chi0"
  have e: "?c1\<lparr>rt_data := X\<rparr> = chi0\<lparr>rt_data := X\<rparr>" for X
    by (simp add: fill_inner)
  have f: "(\<lambda>(r', t). if r' \<in> set rs \<and> t \<in> set ts then fill_value lib grt beta mtb r' t
              else rt_data ?c1 (r', t))
         = (\<lambda>(r', t). if r' \<in> set (r # rs) \<and> t \<in> set ts then fill_value lib grt beta mtb r' t
              else rt_data chi0 (r', t))"
    by (auto simp: fun_eq_iff fill_inner)
  show ?case
    unfolding fold_Cons comp_apply Cons.IH e f ..
qed

subsection \<open>The Hilbert transform and the Weiss field\<close>

lemma gf_iw_inverse_nz:
  assumes "length iw = m" "length sig = m"
    and "\<forall>j<m. iw ! j + of_real a - of_real e - sig ! j \<noteq> 0"
  shows "gf_iw_inverse (hilbert_denominator iw a e sig)
         = Inr (map (\<lambda>j. inverse (iw ! j + of_real a - of_real e - sig ! j)) [0..<m])"
proof -
  have eq: "hilbert_denominator iw a e sig = map (\<lambda>j. iw ! j + of_real a - of_real e - sig ! j) [0..<m]"
    using assms(1,2) by (intro nth_equalityI) (simp_all add: hilbert_denominator_def)
  have "0 \<notin> set (map (\<lambda>j. iw ! j + of_real a - of_real e - sig ! j) [0..<m])"
    using assms(3) by auto
  then show ?thesis
    unfolding eq gf_iw_inverse_def by (simp add: comp_def)
qed

lemma hilbert_bins:
  assumes G: "G name = Some g" "length g = m"
    and iw: "length (iOmega_n P) = m"
    and sig: "Sig name = Some sig" "length sig = m"
    and dos: "rho P patch = Some r" "epsilon P patch = Some e" "delta P patch = Some d"
    and len: "n \<le> length r" "n \<le> length e"
    and nz: "\<forall>i<n. \<forall>j<m. iOmega_n P ! j + of_real (mu P) - of_real (e ! i) - sig ! j \<noteq> 0"
  shows "for_each [0..<n] (hilbert_step P Sig name patch) G
         = Inr (G(name \<mapsto> map (\<lambda>j. g ! j + (\<Sum>i<n. of_real (r ! i * d)
                  * inverse (iOmega_n P ! j + of_real (mu P) - of_real (e ! i) - sig ! j))) [0..<m]))"
  using len nz
proof (induction n)
  case 0
  have "map (\<lambda>j. g ! j) [0..<m] = g" using G(2) map_nth [of g] by simp
  then show ?case using G(1) by (simp add: fun_upd_idem)
next
  case (Suc n)
  let ?t = "\<lambda>i j. of_real (r ! i * d) * inverse (iOmega_n P ! j + of_real (mu P) - of_real (e ! i) - sig ! j)"
  let ?g1 = "map (\<lambda>j. g ! j + (\<Sum>i<n. ?t i j)) [0..<m]"
  have IH: "for_each [0..<n] (hilbert_step P Sig name patch) G = Inr (G(name \<mapsto> ?g1))"
    by (rule Suc.IH) (use Suc.prems in auto)
  have inv: "gf_iw_inverse (hilbert_denominator (iOmega_n P) (mu P) (e ! n) sig)
         = Inr (map (\<lambda>j. inverse (iOmega_n P ! j + of_real (mu P) - of_real (e ! n) - sig ! j)) [0..<m])"
    using Suc.prems by (intro gf_iw_inverse_nz iw sig) simp
  have add: "gf_iw_add ?g1 (gf_iw_scale (r ! n * d)
          (map (\<lambda>j. inverse (iOmega_n P ! j + of_real (mu P) - of_real (e ! n) - sig ! j)) [0..<m]))
        = map (\<lambda>j. g ! j + (\<Sum>i<Suc n. ?t i j)) [0..<m]"
    by (intro nth_equalityI) (simp_all add: gf_iw_add_def gf_iw_scale_def)
  have step: "hilbert_step P Sig name patch n (G(name \<mapsto> ?g1))
        = Inr (G(name \<mapsto> map (\<lambda>j. g ! j + (\<Sum>i<Suc n. ?t i j)) [0..<m]))"
    using Suc.prems dos sig(1) unfolding hilbert_step_def
    by (simp add: inv add del: of_real_mult)
  have "for_each [0..<Suc n] (hilbert_step P Sig name patch) G
        = ebind (for_each [0..<n] (hilbert_step P Sig name patch) G)
            (for_each [n] (hilbert_step P Sig name patch))"
    by (simp add: for_each_append del: for_each.simps)
  also have "\<dots> = for_each [n] (hilbert_step P Sig name patch) (G(name \<mapsto> ?g1))"
    by (simp only: IH ebind_Inr)
  also have "\<dots> = Inr (G(name \<mapsto> map (\<lambda>j. g ! j + (\<Sum>i<Suc n. ?t i j)) [0..<m]))"
    by (simp only: for_each.simps step ebind_Inr)
  finally show ?case .
qed

lemma dca_wfD:
  assumes "dca_wf P Sig G" "spin = ''up'' \<or> spin = ''down''" "patch = ''even'' \<or> patch = ''odd''"
  obtains g sig r e d where "G (patch @ ''-'' @ spin) = Some g" "Sig (patch @ ''-'' @ spin) = Some sig"
    "rho P patch = Some r" "epsilon P patch = Some e" "delta P patch = Some d"
    "length g = length (iOmega_n P)" "length sig = length (iOmega_n P)"
    "n_bins P \<le> length r" "n_bins P \<le> length e"
    "\<forall>i<n_bins P. \<forall>j<length (iOmega_n P).
        iOmega_n P ! j + of_real (mu P) - of_real (e ! i) - sig ! j \<noteq> 0"
proof -
  from assms have "case (G (patch @ ''-'' @ spin), Sig (patch @ ''-'' @ spin),
              rho P patch, epsilon P patch, delta P patch) of
          (Some g, Some sig, Some r, Some e, Some d) \<Rightarrow>
             length g = length (iOmega_n P) \<and> length sig = length (iOmega_n P)
             \<and> n_bins P \<le> length r \<and> n_bins P \<le> length e
             \<and> (\<forall>i<n_bins P. \<forall>j<length (iOmega_n P).
                   iOmega_n P ! j + of_real (mu P) - of_real (e ! i) - sig ! j \<noteq> 0)
        | _ \<Rightarrow> False"
    unfolding dca_wf_def by blast
  then show thesis
    by (auto split: option.splits intro: that)
qed

lemma hilbert_bins_zero:
  assumes wf: "dca_wf P Sig G" "spin = ''up'' \<or> spin = ''down''" "patch = ''even'' \<or> patch = ''odd''"
    and H: "H (patch @ ''-'' @ spin) = block_zero G (patch @ ''-'' @ spin)"
  shows "for_each [0..<n_bins P] (hilbert_step P Sig (patch @ ''-'' @ spin) patch) H
         = Inr (H(patch @ ''-'' @ spin \<mapsto> dca_block P Sig patch spin))"
proof -
  let ?name = "patch @ ''-'' @ spin"
  let ?m = "length (iOmega_n P)"
  from wf obtain g sig r e d where c: "G ?name = Some g" "Sig ?name = Some sig"
    "rho P patch = Some r" "epsilon P patch = Some e" "delta P patch = Some d"
    "length g = ?m" "length sig = ?m" "n_bins P \<le> length r" "n_bins P \<le> length e"
    "\<forall>i<n_bins P. \<forall>j<?m. iOmega_n P ! j + of_real (mu P) - of_real (e ! i) - sig ! j \<noteq> 0"
    by (rule dca_wfD)
  let ?z = "map (\<lambda>_. 0::complex) g"
  have Hz: "H ?name = Some ?z" using H c(1) by (simp add: block_zero_def)
  have "for_each [0..<n_bins P] (hilbert_step P Sig ?name patch) H
        = Inr (H(?name \<mapsto> map (\<lambda>j. ?z ! j + (\<Sum>i<n_bins P. of_real (r ! i * d)
                  * inverse (iOmega_n P ! j + of_real (mu P) - of_real (e ! i) - sig ! j))) [0..<?m]))"
    by (rule hilbert_bins [where g = ?z and sig = sig and r = r and e = e and d = d])
      (use Hz c in simp_all)
  also have "map (\<lambda>j. ?z ! j + (\<Sum>i<n_bins P. of_real (r ! i * d)
                  * inverse (iOmega_n P ! j + of_real (mu P) - of_real (e ! i) - sig ! j))) [0..<?m]
        = dca_block P Sig patch spin"
    unfolding dca_block_def hilbert_quadrature_def using c by (intro map_cong) simp_all
  finally show ?thesis .
qed

lemma dca_G_eq:
  assumes wf: "dca_wf P Sig G"
  shows "dca_G P Sig G = Inr ((block_zero G)
            (''even-up'' \<mapsto> dca_block P Sig ''even'' ''up'',
             ''odd-up'' \<mapsto> dca_block P Sig ''odd'' ''up'',
             ''even-down'' \<mapsto> dca_block P Sig ''even'' ''down'',
             ''odd-down'' \<mapsto> dca_block P Sig ''odd'' ''down''))"
proof -
  let ?Z = "block_zero G"
  let ?G1 = "?Z(''even-up'' \<mapsto> dca_block P Sig ''even'' ''up'')"
  let ?G2 = "?G1(''odd-up'' \<mapsto> dca_block P Sig ''odd'' ''up'')"
  let ?G3 = "?G2(''even-down'' \<mapsto> dca_block P Sig ''even'' ''down'')"
  let ?G4 = "?G3(''odd-down'' \<mapsto> dca_block P Sig ''odd'' ''down'')"
  have 1: "for_each [0..<n_bins P] (hilbert_step P Sig (''even'' @ ''-'' @ ''up'') ''even'') ?Z = Inr ?G1"
    using hilbert_bins_zero [OF wf, of "''up''" "''even''" ?Z] by simp
  have 2: "for_each [0..<n_bins P] (hilbert_step P Sig (''odd'' @ ''-'' @ ''up'') ''odd'') ?G1 = Inr ?G2"
    using hilbert_bins_zero [OF wf, of "''up''" "''odd''" ?G1] by simp
  have 3: "for_each [0..<n_bins P] (hilbert_step P Sig (''even'' @ ''-'' @ ''down'') ''even'') ?G2 = Inr ?G3"
    using hilbert_bins_zero [OF wf, of "''down''" "''even''" ?G2] by simp
  have 4: "for_each [0..<n_bins P] (hilbert_step P Sig (''odd'' @ ''-'' @ ''down'') ''odd'') ?G3 = Inr ?G4"
    using hilbert_bins_zero [OF wf, of "''down''" "''odd''" ?G3] by simp
  show ?thesis
    unfolding dca_G_def by (simp only: for_each.simps 1 2 3 4 ebind_Inr)
qed

lemma weiss_step_eq:
  assumes "weiss_wf G Sig block" "G block = Some g" "Sig block = Some sig"
  shows "weiss_step G Sig block G0
         = Inr (G0(block \<mapsto> map (\<lambda>j. inverse (inverse (g ! j) + sig ! j)) [0..<length g]))"
proof -
  from assms have len: "length g = length sig"
    and nz: "\<forall>j<length g. g ! j \<noteq> 0 \<and> inverse (g ! j) + sig ! j \<noteq> 0"
    by (simp_all add: weiss_wf_def)
  have 1: "gf_iw_inverse g = Inr (map inverse g)"
    using nz by (auto simp: gf_iw_inverse_def in_set_conv_nth)
  have 2: "gf_iw_add (map inverse g) sig = map (\<lambda>j. inverse (g ! j) + sig ! j) [0..<length g]"
    using len by (intro nth_equalityI) (simp_all add: gf_iw_add_def)
  have 3: "gf_iw_inverse (map (\<lambda>j. inverse (g ! j) + sig ! j) [0..<length g])
           = Inr (map (\<lambda>j. inverse (inverse (g ! j) + sig ! j)) [0..<length g])"
    using nz by (auto simp: gf_iw_inverse_def)
  show ?thesis
    using assms(2,3) by (simp add: weiss_step_def 1 2 3)
qed

subsection \<open>The archive\<close>

lemma dmft_iteration_Inr:
  assumes "dmft_iteration solve m P h it st = Inr st'"
  obtains G G0 where "dca_G P (Sigma_iw (S st)) (G_loc st) = Inr G"
    and "for_each (gf_struct (S st)) (weiss_step G (Sigma_iw (S st))) (G0_iw (S st)) = Inr G0"
    and "G_loc st' = G"
    and "S st' = solve h \<lparr>n_cycles = 10000, length_cycle = 10, n_warmup_cycles = 1000,
                          measure_G_l = True\<rparr> ((S st)\<lparr>G0_iw := G0\<rparr>)"
    and "results_h5 st' =
           (if m then (results_h5 st)(''G_iw-'' @ str_of_nat it \<mapsto> G_iw (S st'),
                        ''Sigma_iw-'' @ str_of_nat it \<mapsto> Sigma_iw (S st'),
                        ''G0_iw-'' @ str_of_nat it \<mapsto> G0_iw (S st'))
            else results_h5 st)"
proof -
  from assms obtain G G0 where 1: "dca_G P (Sigma_iw (S st)) (G_loc st) = Inr G"
    and 2: "for_each (gf_struct (S st)) (weiss_step G (Sigma_iw (S st))) (G0_iw (S st)) = Inr G0"
    and 3: "st' = \<lparr>G_loc = G,
        S = solve h \<lparr>n_cycles = 10000, length_cycle = 10, n_warmup_cycles = 1000,
                          measure_G_l = True\<rparr> ((S st)\<lparr>G0_iw := G0\<rparr>),
        results_h5 = (if m then (results_h5 st)(''G_iw-'' @ str_of_nat it \<mapsto> G_iw (solve h \<lparr>n_cycles = 10000, length_cycle = 10, n_warmup_cycles = 1000,
                          measure_G_l = True\<rparr> ((S st)\<lparr>G0_iw := G0\<rparr>)),
                        ''Sigma_iw-'' @ str_of_nat it \<mapsto> Sigma_iw (solve h \<lparr>n_cycles = 10000, length_cycle = 10, n_warmup_cycles = 1000,
                          measure_G_l = True\<rparr> ((S st)\<lparr>G0_iw := G0\<rparr>)),
                        ''G0_iw-'' @ str_of_nat it \<mapsto> G0_iw (solve h \<lparr>n_cycles = 10000, length_cycle = 10, n_warmup_cycles = 1000,
                          measure_G_l = True\<rparr> ((S st)\<lparr>G0_iw := G0\<rparr>)))
            else results_h5 st)\<rparr>"
    unfolding dmft_iteration_def ebind_eq_Inr Let_def by blast
  show thesis
    by (rule that [OF 1 2]) (simp_all add: 3)
qed

lemma dmft_iteration_archive:
  assumes "dmft_iteration solve m P h it st = Inr st'"
  shows "dom (results_h5 st') = dom (results_h5 st) \<union> (if m then archive_keys it else {})"
  by (rule dmft_iteration_Inr [OF assms]) (auto simp: archive_keys_def)

lemma dmft_iteration_not_master:
  assumes "dmft_iteration solve False P h it st = Inr st'"
  shows "results_h5 st' = results_h5 st"
  by (rule dmft_iteration_Inr [OF assms]) simp

lemma dmft_iteration_last_write:
  assumes "dmft_iteration solve True P h it st = Inr st'"
  shows "results_h5 st' (''G_iw-'' @ str_of_nat it) = Some (G_iw (S st'))
       \<and> results_h5 st' (''Sigma_iw-'' @ str_of_nat it) = Some (Sigma_iw (S st'))
       \<and> results_h5 st' (''G0_iw-'' @ str_of_nat it) = Some (G0_iw (S st'))"
  by (rule dmft_iteration_Inr [OF assms]) simp

lemma for_each_archive:
  assumes "for_each its (dmft_iteration solve m P h) st = Inr st'"
  shows "dom (results_h5 st') = dom (results_h5 st) \<union> (if m then (\<Union>it\<in>set its. archive_keys it) else {})"
  using assms
proof (induction its arbitrary: st)
  case Nil
  then show ?case by simp
next
  case (Cons it its)
  from Cons.prems obtain st1 where 1: "dmft_iteration solve m P h it st = Inr st1"
    and 2: "for_each its (dmft_iteration solve m P h) st1 = Inr st'"
    by (auto simp: ebind_eq_Inr)
  show ?case
    using Cons.IH [OF 2] dmft_iteration_archive [OF 1] by auto
qed

lemma for_each_not_master:
  assumes "for_each its (dmft_iteration solve False P h) st = Inr st'"
  shows "results_h5 st' = results_h5 st"
  using assms
proof (induction its arbitrary: st)
  case Nil
  then show ?case by simp
next
  case (Cons it its)
  from Cons.prems obtain st1 where 1: "dmft_iteration solve False P h it st = Inr st1"
    and 2: "for_each its (dmft_iteration solve False P h) st1 = Inr st'"
    by (auto simp: ebind_eq_Inr)
  show ?case
    using Cons.IH [OF 2] dmft_iteration_not_master [OF 1] by simp
qed

lemma for_each_indep:
  assumes "G_loc st1 = G_loc st2" "S st1 = S st2"
  shows "map_sum id (\<lambda>st. (G_loc st, S st)) (for_each its (dmft_iteration solve m P h) st1)
       = map_sum id (\<lambda>st. (G_loc st, S st)) (for_each its (dmft_iteration solve m' P h) st2)"
  using assms
proof (induction its arbitrary: st1 st2)
  case Nil
  then show ?case by simp
next
  case (Cons it its)
  have step: "map_sum id (\<lambda>st. (G_loc st, S st)) (dmft_iteration solve m P h it st1)
       = map_sum id (\<lambda>st. (G_loc st, S st)) (dmft_iteration solve m' P h it st2)"
    using Cons.prems by (auto simp: dmft_iteration_def ebind_def Let_def split: sum.splits)
  show ?case
  proof (cases "dmft_iteration solve m P h it st1")
    case (Inl e)
    with step have "dmft_iteration solve m' P h it st2 = Inl e"
      by (cases "dmft_iteration solve m' P h it st2") auto
    with Inl show ?thesis by simp
  next
    case (Inr a)
    with step obtain b where b: "dmft_iteration solve m' P h it st2 = Inr b"
      and "G_loc a = G_loc b" "S a = S b"
      by (cases "dmft_iteration solve m' P h it st2") auto
    with Inr Cons.IH [of a b] show ?thesis by simp
  qed
qed

subsection \<open>The small DMFT run\<close>

lemma inv_i_minus_1: "inverse (\<i> - 1) = - 1 / 2 - \<i> / 2"
proof -
  have "(\<i> - 1) * (- 1 / 2 - \<i> / 2) = 1" by (simp add: complex_eq_iff)
  then show ?thesis by (rule inverse_unique)
qed

lemma inv_half_i: "inverse (- 1 / 2 - \<i>) = - 2 / 5 + 4 / 5 * \<i>"
proof -
  have "(- 1 / 2 - \<i>) * (- 2 / 5 + 4 / 5 * \<i>) = 1" by (simp add: complex_eq_iff)
  then show ?thesis by (rule inverse_unique)
qed

lemma inv_35_45: "inverse (3 / 5 + 4 / 5 * \<i>) = 3 / 5 - 4 / 5 * \<i>"
proof -
  have "(3 / 5 + 4 / 5 * \<i>) * (3 / 5 - 4 / 5 * \<i>) = 1" by (simp add: complex_eq_iff)
  then show ?thesis by (rule inverse_unique)
qed

lemma all_less_2: "(\<forall>i<2::nat. Q i) \<longleftrightarrow> Q 0 \<and> Q 1"
  by (auto simp: less_2_cases_iff)

lemma sum_less_2: "(\<Sum>i<2::nat. f i) = f 0 + (f 1 :: complex)"
  by (simp add: numeral_2_eq_2)

lemma small_wf:
  assumes "\<forall>k\<in>set names4. \<exists>z. G k = Some [z]"
  shows "dca_wf P_small (blk 1) G"
proof -
  have nz: "\<i> - 1 \<noteq> 0" by (simp add: complex_eq_iff)
  from assms obtain z1 z2 z3 z4 where "G ''even-up'' = Some [z1]" "G ''odd-up'' = Some [z2]"
    "G ''even-down'' = Some [z3]" "G ''odd-down'' = Some [z4]"
    by (auto simp: names4_def)
  then show ?thesis
    using nz by (simp add: dca_wf_def P_small_def patch_dict_def blk_def names4_def all_less_2)
qed

lemma small_quadrature:
  "hilbert_quadrature [\<i>] 1 [1, 2] (1 / 2) [0, 1] [1] 2 = [- 1 / 2 - \<i>]"
  by (simp add: hilbert_quadrature_def sum_less_2 inv_i_minus_1)

lemma small_block:
  assumes "spin = ''up'' \<or> spin = ''down''" "patch = ''even'' \<or> patch = ''odd''"
  shows "dca_block P_small (blk 1) patch spin = [- 1 / 2 - \<i>]"
proof -
  have 1: "rho P_small patch = Some [1, 2]" "epsilon P_small patch = Some [0, 1]"
    "delta P_small patch = Some (1 / 2)"
    using assms(2) by (auto simp: P_small_def patch_dict_def)
  have 2: "blk 1 (patch @ ''-'' @ spin) = Some [1]"
    using assms by (auto simp: blk_def names4_def)
  have 3: "iOmega_n P_small = [\<i>]" "mu P_small = 1" "n_bins P_small = 2"
    by (simp_all add: P_small_def)
  show ?thesis
    unfolding dca_block_def 1 2 3 option.sel by (rule small_quadrature)
qed

lemma small_dca_G:
  assumes "\<forall>k\<in>set names4. \<exists>z. G k = Some [z]"
  shows "dca_G P_small (blk 1) G = Inr ((block_zero G)
            (''even-up'' \<mapsto> [- 1 / 2 - \<i>], ''odd-up'' \<mapsto> [- 1 / 2 - \<i>],
             ''even-down'' \<mapsto> [- 1 / 2 - \<i>], ''odd-down'' \<mapsto> [- 1 / 2 - \<i>]))"
proof -
  have b: "dca_block P_small (blk 1) ''even'' ''up'' = [- 1 / 2 - \<i>]"
    "dca_block P_small (blk 1) ''odd'' ''up'' = [- 1 / 2 - \<i>]"
    "dca_block P_small (blk 1) ''even'' ''down'' = [- 1 / 2 - \<i>]"
    "dca_block P_small (blk 1) ''odd'' ''down'' = [- 1 / 2 - \<i>]"
    by (rule small_block, simp, simp)+
  show ?thesis
    using dca_G_eq [OF small_wf [OF assms]] unfolding b .
qed

lemma small_weiss_wf: "weiss_wf (blk (- 1 / 2 - \<i>)) (blk 1) ''even-up''"
proof -
  have e: "inverse (- 1 / 2 - \<i>) + 1 = 3 / 5 + 4 / 5 * \<i>"
    unfolding inv_half_i by (simp add: complex_eq_iff)
  have nz: "- 1 / 2 - \<i> \<noteq> 0" "3 / 5 + 4 / 5 * \<i> \<noteq> 0"
    by (simp_all add: complex_eq_iff)
  have "\<forall>j<length [- 1 / 2 - \<i>]. [- 1 / 2 - \<i>] ! j \<noteq> 0
          \<and> inverse ([- 1 / 2 - \<i>] ! j) + [1] ! j \<noteq> 0"
  proof (intro allI impI)
    fix j :: nat
    assume "j < length [- 1 / 2 - \<i>]"
    then have j: "j = 0" by simp
    show "[- 1 / 2 - \<i>] ! j \<noteq> 0 \<and> inverse ([- 1 / 2 - \<i>] ! j) + [1] ! j \<noteq> 0"
      unfolding j nth_Cons_0 e using nz by blast
  qed
  moreover have "blk (- 1 / 2 - \<i>) ''even-up'' = Some [- 1 / 2 - \<i>]" "blk 1 ''even-up'' = Some [1]"
    by (simp_all add: blk_def names4_def)
  ultimately show ?thesis unfolding weiss_wf_def by simp
qed

lemma small_weiss_step:
  assumes "G name = Some [- 1 / 2 - \<i>]" "name \<in> set names4"
  shows "weiss_step G (blk 1) name H = Inr (H(name \<mapsto> [3 / 5 - 4 / 5 * \<i>]))"
proof -
  have s: "blk 1 name = Some [1]" using assms(2) by (simp add: blk_def)
  have e: "inverse (- 1 / 2 - \<i>) + 1 = 3 / 5 + 4 / 5 * \<i>"
    unfolding inv_half_i by (simp add: complex_eq_iff)
  have nz: "- 1 / 2 - \<i> \<noteq> 0" "3 / 5 + 4 / 5 * \<i> \<noteq> 0"
    by (simp_all add: complex_eq_iff)
  have "\<forall>j<length [- 1 / 2 - \<i>]. [- 1 / 2 - \<i>] ! j \<noteq> 0
          \<and> inverse ([- 1 / 2 - \<i>] ! j) + [1] ! j \<noteq> 0"
  proof (intro allI impI)
    fix j :: nat
    assume "j < length [- 1 / 2 - \<i>]"
    then have j: "j = 0" by simp
    show "[- 1 / 2 - \<i>] ! j \<noteq> 0 \<and> inverse ([- 1 / 2 - \<i>] ! j) + [1] ! j \<noteq> 0"
      unfolding j nth_Cons_0 e using nz by blast
  qed
  then have wf: "weiss_wf G (blk 1) name"
    unfolding weiss_wf_def assms(1) s by simp
  have "map (\<lambda>j. inverse (inverse ([- 1 / 2 - \<i>] ! j) + [1] ! j)) [0..<length [- 1 / 2 - \<i>]]
        = [3 / 5 - 4 / 5 * \<i>]"
    using e inv_35_45 by simp
  with weiss_step_eq [OF wf assms(1) s, of H] show ?thesis by simp
qed

lemma small_weiss_loop:
  assumes "\<forall>k\<in>set names4. G k = Some [- 1 / 2 - \<i>]"
  shows "for_each names4 (weiss_step G (blk 1)) G0
         = Inr (G0(''even-up'' \<mapsto> [3 / 5 - 4 / 5 * \<i>], ''odd-up'' \<mapsto> [3 / 5 - 4 / 5 * \<i>],
                   ''even-down'' \<mapsto> [3 / 5 - 4 / 5 * \<i>], ''odd-down'' \<mapsto> [3 / 5 - 4 / 5 * \<i>]))"
proof -
  have w: "\<And>name H. name \<in> set names4 \<Longrightarrow>
      weiss_step G (blk 1) name H = Inr (H(name \<mapsto> [3 / 5 - 4 / 5 * \<i>]))"
    using assms by (intro small_weiss_step) auto
  have m: "''even-up'' \<in> set names4" "''odd-up'' \<in> set names4" "''even-down'' \<in> set names4"
    "''odd-down'' \<in> set names4"
    by (simp_all add: names4_def)
  show ?thesis
    unfolding names4_def by (simp only: for_each.simps w [OF m(1)] w [OF m(2)] w [OF m(3)] w [OF m(4)] ebind_Inr)
qed

lemma small_iteration:
  assumes "small_inv st"
  shows "\<exists>st'. dmft_iteration solve_free m P_small h it st = Inr st' \<and> small_inv st'"
proof -
  from assms have G: "\<forall>k\<in>set names4. \<exists>z. G_loc st k = Some [z]"
    and Sg: "Sigma_iw (S st) = blk 1" and gs: "gf_struct (S st) = names4"
    by (simp_all add: small_inv_def)
  let ?G = "(block_zero (G_loc st))
            (''even-up'' \<mapsto> [- 1 / 2 - \<i>], ''odd-up'' \<mapsto> [- 1 / 2 - \<i>],
             ''even-down'' \<mapsto> [- 1 / 2 - \<i>], ''odd-down'' \<mapsto> [- 1 / 2 - \<i>])"
  have 1: "dca_G P_small (Sigma_iw (S st)) (G_loc st) = Inr ?G"
    unfolding Sg by (rule small_dca_G [OF G])
  have G': "\<forall>k\<in>set names4. ?G k = Some [- 1 / 2 - \<i>]"
    by (simp add: names4_def)
  have 2: "\<exists>G0. for_each (gf_struct (S st)) (weiss_step ?G (Sigma_iw (S st))) (G0_iw (S st)) = Inr G0"
    unfolding Sg gs using small_weiss_loop [OF G'] by blast
  then obtain G0 where 3:
    "for_each (gf_struct (S st)) (weiss_step ?G (Sigma_iw (S st))) (G0_iw (S st)) = Inr G0" ..
  have "\<exists>st'. dmft_iteration solve_free m P_small h it st = Inr st' \<and> G_loc st' = ?G
           \<and> Sigma_iw (S st') = Sigma_iw (S st) \<and> gf_struct (S st') = gf_struct (S st)"
    apply (simp only: dmft_iteration_def 1 3 ebind_Inr Let_def)
    apply (rule exI)
    apply (intro conjI)
       apply (rule refl)
      apply (simp_all add: solve_free_def)
    done
  then obtain st' where r: "dmft_iteration solve_free m P_small h it st = Inr st'"
    and g: "G_loc st' = ?G" and s: "Sigma_iw (S st') = Sigma_iw (S st)"
    and t: "gf_struct (S st') = gf_struct (S st)" by blast
  have "small_inv st'"
    unfolding small_inv_def g s t Sg gs using G' by simp
  with r show ?thesis by blast
qed

lemma small_for_each:
  assumes "small_inv st"
  shows "\<exists>st'. for_each its (dmft_iteration solve_free m P_small h) st = Inr st' \<and> small_inv st'"
  using assms
proof (induction its arbitrary: st)
  case Nil
  then show ?case by simp
next
  case (Cons it its)
  from small_iteration [OF Cons.prems] obtain st1
    where 1: "dmft_iteration solve_free m P_small h it st = Inr st1" and 2: "small_inv st1"
    by blast
  from Cons.IH [OF 2] show ?case unfolding for_each.simps 1 ebind_Inr .
qed

lemma small_run: "\<exists>st. dmft_loop solve_free m P_small h S_small A0 = Inr st"
proof -
  have c: "block_const 1 (blk 0) = blk 1"
    by (rule ext) (simp add: block_const_def blk_def)
  have "small_inv \<lparr>G_loc = G0_iw S_small,
          S = S_small\<lparr>Sigma_iw := block_const (mu P_small) (Sigma_iw S_small)\<rparr>, results_h5 = A0\<rparr>"
    by (simp add: small_inv_def S_small_def P_small_def c) (simp add: blk_def)
  from small_for_each [OF this] show ?thesis
    unfolding dmft_loop_def by blast
qed

lemma small_archive_dom:
  "archive_dom (dmft_loop solve_free m P_small h S_small A0)
   = dom A0 \<union> (if m then (\<Union>it<n_loops. archive_keys it) else {})"
proof -
  from small_run obtain st where r: "dmft_loop solve_free m P_small h S_small A0 = Inr st" by blast
  then have "for_each [0..<n_loops] (dmft_iteration solve_free m P_small h)
      \<lparr>G_loc = G0_iw S_small,
          S = S_small\<lparr>Sigma_iw := block_const (mu P_small) (Sigma_iw S_small)\<rparr>, results_h5 = A0\<rparr>
      = Inr st" by (simp add: dmft_loop_def)
  from for_each_archive [OF this] show ?thesis
    unfolding r archive_dom_def by (simp add: lessThan_atLeast0)
qed

subsection \<open>Anticommutators and the adjoint\<close>

lemma site_operators_eq:
  "site_operators c dg = Inr
     ([''1-up'' \<mapsto> (c ''even-up'' 0 + c ''odd-up'' 0) /\<^sub>R sqrt 2,
       ''2-up'' \<mapsto> (c ''even-up'' 0 - c ''odd-up'' 0) /\<^sub>R sqrt 2,
       ''1-down'' \<mapsto> (c ''even-down'' 0 + c ''odd-down'' 0) /\<^sub>R sqrt 2,
       ''2-down'' \<mapsto> (c ''even-down'' 0 - c ''odd-down'' 0) /\<^sub>R sqrt 2],
      [''1-up'' \<mapsto> dg ((c ''even-up'' 0 + c ''odd-up'' 0) /\<^sub>R sqrt 2) * ((c ''even-up'' 0 + c ''odd-up'' 0) /\<^sub>R sqrt 2),
       ''2-up'' \<mapsto> dg ((c ''even-up'' 0 - c ''odd-up'' 0) /\<^sub>R sqrt 2) * ((c ''even-up'' 0 - c ''odd-up'' 0) /\<^sub>R sqrt 2),
       ''1-down'' \<mapsto> dg ((c ''even-down'' 0 + c ''odd-down'' 0) /\<^sub>R sqrt 2) * ((c ''even-down'' 0 + c ''odd-down'' 0) /\<^sub>R sqrt 2),
       ''2-down'' \<mapsto> dg ((c ''even-down'' 0 - c ''odd-down'' 0) /\<^sub>R sqrt 2) * ((c ''even-down'' 0 - c ''odd-down'' 0) /\<^sub>R sqrt 2)])"
  by (simp add: site_operators_def site_step_def Let_def dict_get_def)

lemma acomm_add_left: "acomm (x + y) z = acomm x z + acomm y z"
  by (simp add: acomm_def algebra_simps)

lemma acomm_add_right: "acomm z (x + y) = acomm z x + acomm z y"
  by (simp add: acomm_def algebra_simps)

lemma acomm_diff_left: "acomm (x - y) z = acomm x z - acomm y z"
  by (simp add: acomm_def algebra_simps)

lemma acomm_diff_right: "acomm z (x - y) = acomm z x - acomm z y"
  by (simp add: acomm_def algebra_simps)

lemma acomm_scale_left: "acomm (r *\<^sub>R x) y = r *\<^sub>R acomm x y"
  by (simp add: acomm_def algebra_simps)

lemma acomm_scale_right: "acomm x (r *\<^sub>R y) = r *\<^sub>R acomm x y"
  by (simp add: acomm_def algebra_simps)

lemma is_dagger_diff:
  assumes "is_dagger dg"
  shows "dg (x - y) = dg x - dg y"
proof -
  have "dg (x - y) = dg (x + (- 1) *\<^sub>R y)" by simp
  also have "\<dots> = dg x + (- 1) *\<^sub>R dg y" using assms unfolding is_dagger_def by metis
  finally show ?thesis by simp
qed

lemma is_dagger_zero:
  assumes "is_dagger dg"
  shows "dg 0 = 0"
proof -
  have "dg 0 = dg (0 *\<^sub>R 0)" by simp
  also have "\<dots> = 0 *\<^sub>R dg 0" using assms unfolding is_dagger_def by metis
  finally show ?thesis by simp
qed

lemma is_dagger_minus:
  assumes "is_dagger dg"
  shows "dg (- x) = - dg x"
  using is_dagger_diff [OF assms, of 0 x] is_dagger_zero [OF assms] by simp

lemma half2: "inverse (sqrt 2) * (inverse (sqrt 2) * 2) = (1 :: real)"
  by (simp add: field_simps)

lemma involution:
  fixes ev od :: "'a::real_algebra_1"
  shows "((ev + od) /\<^sub>R sqrt 2 + (ev - od) /\<^sub>R sqrt 2) /\<^sub>R sqrt 2 = ev"
    and "((ev + od) /\<^sub>R sqrt 2 - (ev - od) /\<^sub>R sqrt 2) /\<^sub>R sqrt 2 = od"
proof -
  have 1: "(ev + od) /\<^sub>R sqrt 2 + (ev - od) /\<^sub>R sqrt 2 = inverse (sqrt 2) *\<^sub>R (2 *\<^sub>R ev)"
    by (simp add: algebra_simps scaleR_2)
  have 2: "(ev + od) /\<^sub>R sqrt 2 - (ev - od) /\<^sub>R sqrt 2 = inverse (sqrt 2) *\<^sub>R (2 *\<^sub>R od)"
    by (simp add: algebra_simps scaleR_2)
  show "((ev + od) /\<^sub>R sqrt 2 + (ev - od) /\<^sub>R sqrt 2) /\<^sub>R sqrt 2 = ev"
    unfolding 1 by (simp add: half2)
  show "((ev + od) /\<^sub>R sqrt 2 - (ev - od) /\<^sub>R sqrt 2) /\<^sub>R sqrt 2 = od"
    unfolding 2 by (simp add: half2)
qed

lemma all_less_4: "(\<forall>i<4::nat. Q i) \<longleftrightarrow> Q 0 \<and> Q 1 \<and> Q 2 \<and> Q 3"
proof -
  have "i < 4 \<longleftrightarrow> i = 0 \<or> i = 1 \<or> i = 2 \<or> i = 3" for i :: nat by auto
  then show ?thesis by auto
qed

lemma canonical_4:
  "canonical dg [a, b, c, d] \<longleftrightarrow>
     acomm a a = 0 \<and> acomm a (dg a) = 1
   \<and> acomm a b = 0 \<and> acomm a (dg b) = 0
   \<and> acomm a c = 0 \<and> acomm a (dg c) = 0
   \<and> acomm a d = 0 \<and> acomm a (dg d) = 0
   \<and> acomm b a = 0 \<and> acomm b (dg a) = 0
   \<and> acomm b b = 0 \<and> acomm b (dg b) = 1
   \<and> acomm b c = 0 \<and> acomm b (dg c) = 0
   \<and> acomm b d = 0 \<and> acomm b (dg d) = 0
   \<and> acomm c a = 0 \<and> acomm c (dg a) = 0
   \<and> acomm c b = 0 \<and> acomm c (dg b) = 0
   \<and> acomm c c = 0 \<and> acomm c (dg c) = 1
   \<and> acomm c d = 0 \<and> acomm c (dg d) = 0
   \<and> acomm d a = 0 \<and> acomm d (dg a) = 0
   \<and> acomm d b = 0 \<and> acomm d (dg b) = 0
   \<and> acomm d c = 0 \<and> acomm d (dg c) = 0
   \<and> acomm d d = 0 \<and> acomm d (dg d) = 1"
proof -
  have l: "length [a, b, c, d] = 4" by simp
  show ?thesis unfolding canonical_def l all_less_4 by simp
qed

lemma canonical_site:
  fixes eu ou ed od :: "'a::real_algebra_1"
  assumes dag: "is_dagger dg" and car: "canonical dg [eu, ou, ed, od]"
  shows "canonical dg [(eu + ou) /\<^sub>R sqrt 2, (eu - ou) /\<^sub>R sqrt 2,
                       (ed + od) /\<^sub>R sqrt 2, (ed - od) /\<^sub>R sqrt 2]"
proof -
  have d: "dg (x + y) = dg x + dg y" "dg (x - y) = dg x - dg y" "dg (r *\<^sub>R x) = r *\<^sub>R dg x" for x y r
    using dag is_dagger_diff [OF dag] by (simp_all add: is_dagger_def)
  have "(1 /\<^sub>R sqrt 2 + 1 /\<^sub>R sqrt 2) /\<^sub>R sqrt 2
          = (inverse (sqrt 2) * (inverse (sqrt 2) * 2)) *\<^sub>R (1 :: 'a)"
    by (simp add: scaleR_2 [symmetric] del: scaleR_2)
  then have h: "(1 /\<^sub>R sqrt 2 + 1 /\<^sub>R sqrt 2) /\<^sub>R sqrt 2 = (1 :: 'a)"
    unfolding half2 by simp
  note c = car [unfolded canonical_4]
  show ?thesis
    unfolding canonical_4
    by (simp add: c d acomm_add_left acomm_add_right acomm_diff_left acomm_diff_right
        acomm_scale_left acomm_scale_right h)
qed

lemma number_commute:
  fixes a b :: "'a::real_algebra_1"
  assumes dag: "is_dagger dg"
    and 1: "acomm a b = 0" and 2: "acomm a (dg b) = 0" and 3: "acomm b (dg a) = 0"
  shows "(dg a * a) * (dg b * b) = (dg b * b) * (dg a * a)"
proof -
  have m: "dg (x * y) = dg y * dg x" for x y using dag by (simp add: is_dagger_def)
  have ab: "a * b = - (b * a)" using 1 by (simp add: acomm_def add_eq_0_iff2)
  have adb: "a * dg b = - (dg b * a)" using 2 by (simp add: acomm_def add_eq_0_iff2)
  have dab: "dg a * b = - (b * dg a)" using 3 by (simp add: acomm_def add_eq_0_iff)
  have "dg (a * b) = dg (- (b * a))" using ab by simp
  then have dd: "dg a * dg b = - (dg b * dg a)"
    by (simp add: m is_dagger_minus [OF dag])
  have "(dg a * a) * (dg b * b) = dg a * (a * dg b) * b" by (simp add: mult.assoc)
  also have "\<dots> = - ((dg a * dg b) * (a * b))" unfolding adb by (simp add: mult.assoc)
  also have "\<dots> = - ((dg b * dg a) * (b * a))" unfolding dd ab by simp
  also have "\<dots> = - (dg b * (dg a * b) * a)" by (simp add: mult.assoc)
  also have "\<dots> = (dg b * b) * (dg a * a)" unfolding dab by (simp add: mult.assoc)
  finally show ?thesis .
qed

subsection \<open>The Jordan-Wigner operators\<close>

lemma adj_is_dagger: "is_dagger adj"
  unfolding is_dagger_def
proof (intro conjI allI)
  fix x y :: fock_op and r :: real
  show "adj (x + y) = adj x + adj y" by (simp add: adj_def plus_fock_op_def)
  show "adj (x * y) = adj y * adj x" by (simp add: adj_def times_fock_op_def mult.commute)
  show "adj (r *\<^sub>R x) = r *\<^sub>R adj x" by (simp add: adj_def scaleR_fock_op_def)
  show "adj (adj x) = x" by (simp add: adj_def)
qed

lemma mono_mult: "mono s f * mono t g = mono (\<lambda>n. s (g n) * t n) (f \<circ> g)"
proof -
  have "(\<Sum>k\<in>UNIV. (if m = f k then s k else 0) * (if k = g n then t n else 0))
        = (if m = f (g n) then s (g n) * t n else 0)" for m n
  proof -
    have "(\<Sum>k\<in>UNIV. (if m = f k then s k else 0) * (if k = g n then t n else 0))
        = (\<Sum>k\<in>UNIV. if k = g n then (if m = f (g n) then s (g n) * t n else 0) else 0)"
      by (intro sum.cong) auto
    then show ?thesis by (simp add: sum.delta)
  qed
  then show ?thesis by (simp add: mono_def times_fock_op_def)
qed

lemma adj_ann:
  "adj ann1 = cre1" "adj ann2 = cre2" "adj ann3 = cre3" "adj ann4 = cre4"
  by (auto simp: adj_def mono_def ann1_def ann2_def ann3_def ann4_def cre1_def cre2_def cre3_def
      cre4_def fun_eq_iff)

lemma acomm_mono:
  "acomm (mono s f) (mono t g)
   = Mat (\<lambda>m n. (if m = f (g n) then s (g n) * t n else 0) + (if m = g (f n) then t (f n) * s n else 0))"
  by (simp add: acomm_def mono_mult) (simp add: mono_def plus_fock_op_def)

lemma jw_canonical: "canonical adj [ann1, ann2, ann3, ann4]"
  unfolding canonical_4 adj_ann
  unfolding ann1_def ann2_def ann3_def ann4_def cre1_def cre2_def cre3_def cre4_def acomm_mono
  by (auto simp: zero_fock_op_def one_fock_op_def fun_eq_iff sgn_occ_def)

section \<open>The claims\<close>

subsection \<open>C1: what the notebooks compute themselves\<close>

text \<open>
  Claim C1 says that the notebooks' own code only sets parameters, calls library entry
  points and post-processes, and implements no quadrature and no self-consistency update.
  The DMFT loop does both in its own code. Amended claim C1: whenever every block, patch
  and bin is there and no denominator vanishes, the three nested loops of the notebook
  return, for every patch and spin, the block
  \<open>G[patch-spin](i omega_j) = sum over i < n_bins of
  rho[patch][i] * delta[patch] * inverse(i omega_j + mu - epsilon[patch][i] - Sigma[patch-spin](i omega_j))\<close>,
  the rectangle rule over the histogram bins; and the update of the Weiss field sets
  \<open>G0[block] = inverse(inverse(G[block]) + Sigma[block])\<close> value by value. The library is
  called for the arithmetic on containers only.
\<close>

theorem hilbert_quadrature_in_repository:
  assumes wf: "dca_wf P Sig G"
    and sp: "spin = ''up'' \<or> spin = ''down''" "patch = ''even'' \<or> patch = ''odd''"
    and dos: "rho P patch = Some r" "epsilon P patch = Some e" "delta P patch = Some d"
    and sig: "Sig (patch @ ''-'' @ spin) = Some sig"
    and ww: "weiss_wf Gl Sg block" "Gl block = Some gl" "Sg block = Some sl"
  shows "(\<exists>G' g. dca_G P Sig G = Inr G' \<and> G' (patch @ ''-'' @ spin) = Some g
            \<and> length g = length (iOmega_n P)
            \<and> (\<forall>j<length (iOmega_n P).
                 g ! j = (\<Sum>i<n_bins P. of_real (r ! i * d)
                            * inverse (iOmega_n P ! j + of_real (mu P) - of_real (e ! i) - sig ! j))))
       \<and> weiss_step Gl Sg block H
           = Inr (H(block \<mapsto> map (\<lambda>j. inverse (inverse (gl ! j) + sl ! j)) [0..<length gl]))"
proof -
  let ?G = "(block_zero G)
            (''even-up'' \<mapsto> dca_block P Sig ''even'' ''up'',
             ''odd-up'' \<mapsto> dca_block P Sig ''odd'' ''up'',
             ''even-down'' \<mapsto> dca_block P Sig ''even'' ''down'',
             ''odd-down'' \<mapsto> dca_block P Sig ''odd'' ''down'')"
  have 1: "dca_G P Sig G = Inr ?G" by (rule dca_G_eq [OF wf])
  have 2: "?G (patch @ ''-'' @ spin) = Some (dca_block P Sig patch spin)"
    using sp by auto
  have 3: "dca_block P Sig patch spin
        = map (\<lambda>j. \<Sum>i<n_bins P. of_real (r ! i * d)
                * inverse (iOmega_n P ! j + of_real (mu P) - of_real (e ! i) - sig ! j))
            [0..<length (iOmega_n P)]"
    unfolding dca_block_def hilbert_quadrature_def dos sig option.sel ..
  have "\<exists>G' g. dca_G P Sig G = Inr G' \<and> G' (patch @ ''-'' @ spin) = Some g
            \<and> length g = length (iOmega_n P)
            \<and> (\<forall>j<length (iOmega_n P).
                 g ! j = (\<Sum>i<n_bins P. of_real (r ! i * d)
                            * inverse (iOmega_n P ! j + of_real (mu P) - of_real (e ! i) - sig ! j)))"
    apply (rule exI [of _ ?G])
    apply (rule exI [of _ "dca_block P Sig patch spin"])
    apply (intro conjI 1 2)
     apply (simp add: 3)
    apply (simp add: 3 del: of_real_mult)
    done
  then show ?thesis
    using weiss_step_eq [OF ww] by blast
qed

text \<open>
  The amended claim C1 at one Matsubara frequency \<open>i\<close>, \<open>mu = Sigma = 1\<close>, two bins at
  energies 0 and 1 with densities 1 and 2 and width 1/2.
\<close>

theorem hilbert_quadrature_in_repository_witness:
  "(\<exists>G' g. dca_G P_small (blk 1) (blk 1) = Inr G' \<and> G' ''even-up'' = Some g \<and> g ! 0 = - 1 / 2 - \<i>)
   \<and> weiss_step (blk (- 1 / 2 - \<i>)) (blk 1) ''even-up'' (blk 1)
       = Inr ((blk 1)(''even-up'' \<mapsto> [3 / 5 - 4 / 5 * \<i>]))"
proof -
  have wf: "dca_wf P_small (blk 1) (blk 1)"
    by (rule small_wf) (simp add: blk_def)
  have dos: "rho P_small ''even'' = Some [1, 2]" "epsilon P_small ''even'' = Some [0, 1]"
    "delta P_small ''even'' = Some (1 / 2)"
    by (simp_all add: P_small_def patch_dict_def)
  have sig: "blk 1 (''even'' @ ''-'' @ ''up'') = Some [1]"
    by (simp add: blk_def names4_def)
  have b: "blk (- 1 / 2 - \<i>) ''even-up'' = Some [- 1 / 2 - \<i>]" "blk 1 ''even-up'' = Some [1]"
    by (simp_all add: blk_def names4_def)
  have p: "iOmega_n P_small = [\<i>]" "mu P_small = 1" "n_bins P_small = 2"
    by (simp_all add: P_small_def)
  have e: "inverse (- 1 / 2 - \<i>) + 1 = 3 / 5 + 4 / 5 * \<i>"
    unfolding inv_half_i by (simp add: complex_eq_iff)
  have m: "map (\<lambda>j. inverse (inverse ([- 1 / 2 - \<i>] ! j) + [1] ! j)) [0..<length [- 1 / 2 - \<i>]]
        = [3 / 5 - 4 / 5 * \<i>]"
    using e inv_35_45 by simp
  note t = hilbert_quadrature_in_repository [where P = P_small and Sig = "blk 1" and G = "blk 1" and spin = "''up''"
      and patch = "''even''" and r = "[1, 2]" and e = "[0, 1]" and d = "1 / 2" and sig = "[1]"
      and Gl = "blk (- 1 / 2 - \<i>)" and Sg = "blk 1" and block = "''even-up''"
      and gl = "[- 1 / 2 - \<i>]" and sl = "[1]" and H = "blk 1",
      OF wf _ _ dos sig small_weiss_wf b, unfolded p m]
  have q: "(\<Sum>i<2. complex_of_real ([1, 2] ! i * (1 / 2)) *
              inverse ([\<i>] ! 0 + complex_of_real 1 - complex_of_real ([0, 1] ! i) - [1] ! 0))
           = - 1 / 2 - \<i>"
    by (simp add: sum_less_2 inv_i_minus_1 complex_eq_iff)
  from t obtain G' g where "dca_G P_small (blk 1) (blk 1) = Inr G'" "G' (''even'' @ ''-'' @ ''up'') = Some g"
    "\<forall>j<length [\<i>]. g ! j = (\<Sum>i<2. complex_of_real ([1, 2] ! i * (1 / 2)) *
              inverse ([\<i>] ! j + complex_of_real 1 - complex_of_real ([0, 1] ! i) - [1] ! j))"
    by auto
  then have "dca_G P_small (blk 1) (blk 1) = Inr G' \<and> G' ''even-up'' = Some g \<and> g ! 0 = - 1 / 2 - \<i>"
    using q by simp
  then show ?thesis using t by blast
qed

text \<open>
  Claim C1 fails at that input: with no solver call in between, the notebook's loops
  turn \<open>G = 1\<close> into \<open>(1/2)/i + 1/(i - 1) = - 1/2 - i\<close>, and its update turns that block
  and \<open>Sigma = 1\<close> into the Weiss field \<open>3/5 - 4/5 i\<close>.
\<close>

theorem library_calls_only_counterexample:
  "block_of (dca_G P_small (blk 1) (blk 1)) ''even-up'' = Inr [- 1 / 2 - \<i>]
   \<and> block_of (weiss_step (blk (- 1 / 2 - \<i>)) (blk 1) ''even-up'' (blk 1)) ''even-up''
       = Inr [3 / 5 - 4 / 5 * \<i>]"
proof -
  have "\<forall>k\<in>set names4. \<exists>z. blk 1 k = Some [z]" by (simp add: blk_def)
  from small_dca_G [OF this] have 1: "block_of (dca_G P_small (blk 1) (blk 1)) ''even-up'' = Inr [- 1 / 2 - \<i>]"
    unfolding block_of_def by (simp only: ebind_Inr) simp
  have "blk (- 1 / 2 - \<i>) ''even-up'' = Some [- 1 / 2 - \<i>]" "''even-up'' \<in> set names4"
    by (simp_all add: blk_def names4_def)
  from small_weiss_step [where G = "blk (- 1 / 2 - \<i>)" and name = "''even-up''" and H = "blk 1", OF this]
  have 2: "block_of (weiss_step (blk (- 1 / 2 - \<i>)) (blk 1) ''even-up'' (blk 1)) ''even-up''
       = Inr [3 / 5 - 4 / 5 * \<i>]"
    unfolding block_of_def by (simp only: ebind_Inr) simp
  from 1 2 show ?thesis ..
qed

subsection \<open>C2: the bubble\<close>

text \<open>
  Claim C2 says that no step of the bubble is carried out by code of the repository. The
  two Fourier transforms are library calls, the product between them is not. Amended
  claim C2: for every library and every \<open>g0\<close>, \<open>bubble\<close> returns the library's transform
  of a container on the lattice mesh of \<open>grt = make_gf_from_fourier(g0)\<close> and the bosonic
  time mesh of the same size and inverse temperature, whose value at \<open>(r, t)\<close> is
  \<open>2 * grt(-r, beta - t) * grt(r, t)\<close> for every lattice point \<open>r\<close> and time index \<open>t\<close>
  of the meshes (and zero elsewhere), filled in by the cell's own double loop.
\<close>

theorem bubble_fill_in_repository:
  "bubble lib g0 = make_gf_from_fourier_rt lib (bubble_chi0 lib g0)
   \<and> r_mesh (bubble_chi0 lib g0) = r_mesh (make_gf_from_fourier_kw lib g0)
   \<and> t_mesh (bubble_chi0 lib g0)
       = \<lparr>tau_beta = tau_beta (t_mesh (make_gf_from_fourier_kw lib g0)), tau_statistic = Boson,
          tau_size = tau_size (t_mesh (make_gf_from_fourier_kw lib g0))\<rparr>
   \<and> rt_data (bubble_chi0 lib g0) (r, t)
       = (if r \<in> set (r_mesh (make_gf_from_fourier_kw lib g0))
             \<and> t < tau_size (t_mesh (make_gf_from_fourier_kw lib g0))
          then 2 * gf_rt_call lib (make_gf_from_fourier_kw lib g0) (neg_point r)
                     (tau_beta (t_mesh (make_gf_from_fourier_kw lib g0))
                      - tau_value lib (t_mesh (bubble_chi0 lib g0)) t)
                 * gf_rt_call lib (make_gf_from_fourier_kw lib g0) r
                     (tau_value lib (t_mesh (bubble_chi0 lib g0)) t)
          else 0)"
  by (simp add: bubble_def bubble_chi0_def Let_def fill_outer fill_value_def)

text \<open>
  Claim C2 fails for a library whose transforms hand the data through: the two transforms
  alone turn the constant 3 into 3, the bubble turns it into \<open>2 * 3 * 3 = 18\<close>.
\<close>

theorem bubble_opaque_counterexample:
  "gf_data (make_gf_from_fourier_rt lib_probe (make_gf_from_fourier_kw lib_probe g0_three)) = [3, 3]
   \<and> gf_data (bubble lib_probe g0_three) = [18, 18]"
proof -
  have u: "[0..<2] = [0, 1::nat]" by code_simp
  show ?thesis
    by (simp add: bubble_def bubble_chi0_def Let_def fill_outer fill_value_def lib_probe_def
        g0_three_def u)
qed

subsection \<open>C3: the vertices are roots\<close>

text \<open>
  Claim C3 says that both solvers return a triple \<open>(Usp, Uch, docc)\<close>; \<open>solve_tpsc\<close>
  returns four values, and needs a non-zero real part of \<open>chi0((pi, pi, 0), 0)\<close> to get
  as far as the root finder. Amended claim C3: let \<open>U \<noteq> 0\<close> and let the external root
  finder, called with \<open>xtol = 1e-2\<close>, return a root of each residual it is given. Then
  \<open>solve_Usp_and_Uch\<close> returns the triple \<open>(Usp, Uch, docc)\<close> and, when
  \<open>chi0((pi, pi, 0), 0).real \<noteq> 0\<close>, \<open>solve_tpsc\<close> returns the four values
  \<open>(Usp, Uch, docc, Uc)\<close> with \<open>Uc = 2 / chi0((pi, pi, 0), 0).real\<close>, where in both
  \<open>Usp\<close> and \<open>Uch\<close> are the values the root finder returned, they zero the spin and
  the charge residual of that notebook, and \<open>docc = 0.25 * Usp * n^2 / U\<close>. The
  repository only hands the residuals, the start values or brackets and the tolerance to
  the root finder.
\<close>

theorem solvers_return_roots:
  assumes "U \<noteq> 0"
    and "fsolve_root fsolve (\<lambda>x. Usp_root_problem x chi n U) Usp_start Usp"
    and "fsolve_root fsolve (\<lambda>x. as_array (Uch_root_problem x chi n U (0.25 * Usp / U * n\<^sup>2))) Uch_start Uch"
    and "U' \<noteq> 0"
    and "Re (gf_call chi' [pi, pi, 0] 0) \<noteq> 0"
    and "brentq_root brentq (\<lambda>x. Usp_root x chi' n' U') 0
           (2 / Re (gf_call chi' [pi, pi, 0] 0) - 1 / 10 ^ 6) Usp'"
    and "brentq_root brentq (\<lambda>x. Uch_root x chi' n' U' (0.25 * Usp' / U' * n'\<^sup>2)) 0 100 Uch'"
  shows "solve_Usp_and_Uch fsolve chi U n Usp_start Uch_start = Inr (Usp, Uch, 0.25 * Usp * n\<^sup>2 / U)
       \<and> Usp_root_problem [Usp] chi n U = Inr [0]
       \<and> Uch_root_problem [Uch] chi n U (0.25 * Usp * n\<^sup>2 / U) = Inr 0
       \<and> solve_tpsc brentq gf_call chi' U' n'
           = Inr (Usp', Uch', 0.25 * Usp' * n'\<^sup>2 / U', 2 / Re (gf_call chi' [pi, pi, 0] 0))
       \<and> Usp_root Usp' chi' n' U' = Inr 0
       \<and> Uch_root Uch' chi' n' U' (0.25 * Usp' * n'\<^sup>2 / U') = Inr 0"
proof -
  have e: "0.25 * Usp / U * n\<^sup>2 = 0.25 * Usp * n\<^sup>2 / U"
     "0.25 * Usp' / U' * n'\<^sup>2 = 0.25 * Usp' * n'\<^sup>2 / U'" by simp_all
  show ?thesis
    using assms unfolding e
    by (simp add: solve_Usp_and_Uch_def solve_tpsc_def fsolve_root_def brentq_root_def
        index0_def as_array_eq Let_def)
qed

text \<open>
  The amended claim C3 at one-point susceptibilities, \<open>U = 1\<close> and \<open>n = 1/2\<close>, where the
  roots are \<open>Usp = 0\<close> and \<open>Uch = 4\<close>.
\<close>

theorem solvers_return_roots_witness:
  "solve_Usp_and_Uch fsolve_probe chi0_quarter 1 (1 / 2) (1 / 10) (1 / 10) = Inr (0, 4, 0)
   \<and> Usp_root_problem [0] chi0_quarter (1 / 2) 1 = Inr [0]
   \<and> Uch_root_problem [4] chi0_quarter (1 / 2) 1 0 = Inr 0
   \<and> solve_tpsc brentq_probe gf_call_first chi0_half 1 (1 / 2) = Inr (0, 4, 0, 4)
   \<and> Usp_root 0 chi0_half (1 / 2) 1 = Inr 0
   \<and> Uch_root 4 chi0_half (1 / 2) 1 0 = Inr 0"
proof -
  have r1: "Usp_root_problem [0] chi0_quarter (1 / 2) 1 = Inr [0]"
    by (simp add: Usp_root_problem_def chi0_quarter_def chi_rpa_def gf_inverse_def gf_rsub_def
        gf_scale_def gf_mul_def trace_chi_kw_def power2_eq_square)
  have r2: "Uch_root_problem [0] chi0_quarter (1 / 2) 1 0 = Inr (1 / 4)"
    by (simp add: Uch_root_problem_def chi0_quarter_def chi_rpa_def gf_inverse_def gf_rsub_def
        gf_scale_def gf_mul_def trace_chi_kw_def power2_eq_square)
  have r3: "Uch_root_problem [4] chi0_quarter (1 / 2) 1 0 = Inr 0"
    by (simp add: Uch_root_problem_def chi0_quarter_def chi_rpa_def gf_inverse_def gf_rsub_def
        gf_scale_def gf_mul_def trace_chi_kw_def power2_eq_square)
  have s1: "Usp_root 0 chi0_half (1 / 2) 1 = Inr 0"
    by (simp add: Usp_root_def chi0_half_def chi_rpa_mw_def gf_inverse_def gf_rsub_def
        gf_scale_def gf_mul_def trace_chi_def power2_eq_square)
  have s2: "Uch_root 0 chi0_half (1 / 2) 1 0 = Inr (1 / 4)"
    by (simp add: Uch_root_def chi0_half_def chi_rpa_mw_def gf_inverse_def gf_rsub_def
        gf_scale_def gf_mul_def trace_chi_def power2_eq_square)
  have s3: "Uch_root 4 chi0_half (1 / 2) 1 0 = Inr 0"
    by (simp add: Uch_root_def chi0_half_def chi_rpa_mw_def gf_inverse_def gf_rsub_def
        gf_scale_def gf_mul_def trace_chi_def power2_eq_square)
  have g: "gf_call_first chi0_half [pi, pi, 0] 0 = 1 / 2"
    by (simp add: gf_call_first_def chi0_half_def)
  have h1: "fsolve_root fsolve_probe (\<lambda>x. Usp_root_problem x chi0_quarter (1 / 2) 1) (1 / 10) 0"
    by (simp add: fsolve_root_def fsolve_probe_def r1)
  have h2: "fsolve_root fsolve_probe
      (\<lambda>x. as_array (Uch_root_problem x chi0_quarter (1 / 2) 1 (0.25 * 0 / 1 * (1 / 2)\<^sup>2))) (1 / 10) 4"
    by (simp add: fsolve_root_def fsolve_probe_def r2 r3 as_array_def)
  have h3: "brentq_root brentq_probe (\<lambda>x. Usp_root x chi0_half (1 / 2) 1) 0
      (2 / Re (gf_call_first chi0_half [pi, pi, 0] 0) - 1 / 10 ^ 6) 0"
    by (simp add: brentq_root_def brentq_probe_def s1 g)
  have h4: "brentq_root brentq_probe
      (\<lambda>x. Uch_root x chi0_half (1 / 2) 1 (0.25 * 0 / 1 * (1 / 2)\<^sup>2)) 0 100 4"
    by (simp add: brentq_root_def brentq_probe_def s2 s3)
  have h5: "Re (gf_call_first chi0_half [pi, pi, 0] 0) \<noteq> 0" by (simp add: g)
  show ?thesis
    using solvers_return_roots [where U = 1 and fsolve = fsolve_probe and chi = chi0_quarter and n = "1 / 2"
        and Usp_start = "1 / 10" and Usp = 0 and Uch_start = "1 / 10" and Uch = 4
        and U' = 1 and gf_call = gf_call_first and chi' = chi0_half and brentq = brentq_probe
        and n' = "1 / 2" and Usp' = 0 and Uch' = 4] h1 h2 h3 h4 h5
    by (simp add: g)
qed

text \<open>
  Claim C3 fails there: \<open>solve_tpsc\<close> returns the four values \<open>(0, 4, 0, 4)\<close>, the last
  one being \<open>Uc\<close>.
\<close>

theorem solve_tpsc_triple_counterexample:
  "solve_tpsc brentq_probe gf_call_first chi0_half 1 (1 / 2) = Inr (0, 4, 0, 4)"
proof -
  have s1: "Usp_root 0 chi0_half (1 / 2) 1 = Inr 0"
    by (simp add: Usp_root_def chi0_half_def chi_rpa_mw_def gf_inverse_def gf_rsub_def
        gf_scale_def gf_mul_def trace_chi_def power2_eq_square)
  have s2: "Uch_root 0 chi0_half (1 / 2) 1 0 = Inr (1 / 4)"
    by (simp add: Uch_root_def chi0_half_def chi_rpa_mw_def gf_inverse_def gf_rsub_def
        gf_scale_def gf_mul_def trace_chi_def power2_eq_square)
  have s3: "Uch_root 4 chi0_half (1 / 2) 1 0 = Inr 0"
    by (simp add: Uch_root_def chi0_half_def chi_rpa_mw_def gf_inverse_def gf_rsub_def
        gf_scale_def gf_mul_def trace_chi_def power2_eq_square)
  have g: "gf_call_first chi0_half [pi, pi, 0] 0 = 1 / 2"
    by (simp add: gf_call_first_def chi0_half_def)
  show ?thesis
    by (simp add: solve_tpsc_def g brentq_probe_def s1 s2 s3)
qed

subsection \<open>C4: the two notebooks\<close>

text \<open>
  Claim C4 says that the residuals of the two notebooks are equal on the same \<open>chi0\<close>.
  They are not: the first notebook computes \<open>2 tr[chi0 / (1 - U chi0)]\<close>, the second
  \<open>tr[chi0 / (1 - U chi0 / 2)]\<close>. Amended claim C4: the residuals of the first notebook
  on \<open>chi0\<close> are the residuals of the Mermin-Wagner notebook on \<open>2 * chi0\<close> (its bubble
  carries the factor 2), up to the assertion on the imaginary part of the trace, which
  only the first notebook makes. \<open>Usp_root_problem\<close> returns the finite value \<open>d\<close> at a
  trial vertex on \<open>chi0\<close> if and only if the assertion in \<open>trace_chi_kw\<close> does not fail
  there and \<open>Usp_root\<close> returns \<open>d\<close> at that vertex on the doubled susceptibility, and
  likewise \<open>Uch_root_problem\<close> and \<open>Uch_root\<close>. So the two residuals have the same
  zeros wherever the assertion passes.
\<close>

theorem residuals_agree_on_doubled_chi0:
  "(Usp_root_problem [Usp] chi0 n U = Inr [d]
      \<longleftrightarrow> ebind (chi_rpa chi0 Usp) trace_chi_kw \<noteq> Inl AssertionError
          \<and> Usp_root Usp (gf_scale 2 chi0) n U = Inr d)
   \<and> (Uch_root_problem [Uch] chi0 n U docc = Inr e
      \<longleftrightarrow> ebind (chi_rpa chi0 (- Uch)) trace_chi_kw \<noteq> Inl AssertionError
          \<and> Uch_root Uch (gf_scale 2 chi0) n U docc = Inr e)"
proof (intro conjI iffI)
  assume a: "Usp_root_problem [Usp] chi0 n U = Inr [d]"
  then obtain chi t where c: "chi_rpa chi0 Usp = Inr chi" and t: "trace_chi_kw chi = Inr t"
    and U: "U \<noteq> 0" and d: "d = 2 * t + 0.5 * Usp / U * n\<^sup>2 - n"
    by (auto simp: Usp_root_problem_def ebind_eq_Inr split: if_splits)
  show "ebind (chi_rpa chi0 Usp) trace_chi_kw \<noteq> Inl AssertionError" by (simp add: c t)
  show "Usp_root Usp (gf_scale 2 chi0) n U = Inr d"
    using chi_rpa_mw_scale2 [OF c] trace_chi_scale2 [OF t] U d
    by (simp add: Usp_root_def)
next
  assume b: "ebind (chi_rpa chi0 Usp) trace_chi_kw \<noteq> Inl AssertionError
             \<and> Usp_root Usp (gf_scale 2 chi0) n U = Inr d"
  then obtain c s where m: "chi_rpa_mw (gf_scale 2 chi0) Usp = Inr c" and s: "trace_chi c = Inr s"
    and U: "U \<noteq> 0" and d: "d = s + 0.5 * Usp / U * n\<^sup>2 - n"
    by (auto simp: Usp_root_def ebind_eq_Inr split: if_splits)
  from chi_rpa_of_mw [OF m] obtain chi where c: "chi_rpa chi0 Usp = Inr chi" by blast
  from chi_rpa_mw_scale2 [OF c] m have cc: "c = gf_scale 2 chi" by simp
  from b c have g: "trace_chi_kw chi \<noteq> Inl AssertionError" by simp
  from trace_chi_kw_cases [OF s [unfolded cc] g] obtain t where t: "trace_chi_kw chi = Inr t" by blast
  from trace_chi_scale2 [OF t] s cc have "s = 2 * t" by simp
  then show "Usp_root_problem [Usp] chi0 n U = Inr [d]"
    using c t U d by (simp add: Usp_root_problem_def)
next
  assume a: "Uch_root_problem [Uch] chi0 n U docc = Inr e"
  then obtain chi t where c: "chi_rpa chi0 (- Uch) = Inr chi" and t: "trace_chi_kw chi = Inr t"
    and e: "e = 2 * t - 2 * docc - n + n\<^sup>2"
    by (auto simp: Uch_root_problem_def ebind_eq_Inr)
  show "ebind (chi_rpa chi0 (- Uch)) trace_chi_kw \<noteq> Inl AssertionError" by (simp add: c t)
  show "Uch_root Uch (gf_scale 2 chi0) n U docc = Inr e"
    using chi_rpa_mw_scale2 [OF c] trace_chi_scale2 [OF t] e
    by (simp add: Uch_root_def)
next
  assume b: "ebind (chi_rpa chi0 (- Uch)) trace_chi_kw \<noteq> Inl AssertionError
             \<and> Uch_root Uch (gf_scale 2 chi0) n U docc = Inr e"
  then obtain c s where m: "chi_rpa_mw (gf_scale 2 chi0) (- Uch) = Inr c" and s: "trace_chi c = Inr s"
    and e: "e = s - 2 * docc - n + n\<^sup>2"
    by (auto simp: Uch_root_def ebind_eq_Inr)
  from chi_rpa_of_mw [OF m] obtain chi where c: "chi_rpa chi0 (- Uch) = Inr chi" by blast
  from chi_rpa_mw_scale2 [OF c] m have cc: "c = gf_scale 2 chi" by simp
  from b c have g: "trace_chi_kw chi \<noteq> Inl AssertionError" by simp
  from trace_chi_kw_cases [OF s [unfolded cc] g] obtain t where t: "trace_chi_kw chi = Inr t" by blast
  from trace_chi_scale2 [OF t] s cc have "s = 2 * t" by simp
  then show "Uch_root_problem [Uch] chi0 n U docc = Inr e"
    using c t e by (simp add: Uch_root_problem_def)
qed

text \<open>
  The amended claim C4 at \<open>chi0 = 1/4\<close> on one mesh point, \<open>n = 1/2\<close> and \<open>U = 1\<close>:
  the trial vertex 8 zeroes the spin residual of both notebooks, and at the trial vertex
  4 with \<open>docc = 1\<close> both charge residuals are \<open>-2\<close>.
\<close>

theorem residuals_agree_on_doubled_chi0_witness:
  "Usp_root_problem [8] chi0_quarter (1 / 2) 1 = Inr [0]
   \<and> Usp_root 8 (gf_scale 2 chi0_quarter) (1 / 2) 1 = Inr 0
   \<and> Uch_root_problem [4] chi0_quarter (1 / 2) 1 1 = Inr (- 2)
   \<and> Uch_root 4 (gf_scale 2 chi0_quarter) (1 / 2) 1 1 = Inr (- 2)"
proof -
  have a: "Usp_root_problem [8] chi0_quarter (1 / 2) 1 = Inr [0]"
    by (simp add: Usp_root_problem_def chi0_quarter_def chi_rpa_def gf_inverse_def gf_rsub_def
        gf_scale_def gf_mul_def trace_chi_kw_def power2_eq_square)
  have b: "Uch_root_problem [4] chi0_quarter (1 / 2) 1 1 = Inr (- 2)"
    by (simp add: Uch_root_problem_def chi0_quarter_def chi_rpa_def gf_inverse_def gf_rsub_def
        gf_scale_def gf_mul_def trace_chi_kw_def power2_eq_square)
  show ?thesis
    using a b residuals_agree_on_doubled_chi0 [of 8 chi0_quarter "1 / 2" 1 0 4 1 "- 2"] by simp
qed

text \<open>
  Claim C4 fails at \<open>chi0 = 1\<close> on one mesh point, \<open>n = U = 1\<close> and the trial vertex 0:
  on the same \<open>chi0\<close> the spin residuals are 1 and 0, the charge residuals 2 and 1.
\<close>

theorem residuals_equal_counterexample:
  "Usp_root_problem [0] chi0_unit 1 1 = Inr [1] \<and> Usp_root 0 chi0_unit 1 1 = Inr 0
   \<and> Uch_root_problem [0] chi0_unit 1 1 0 = Inr 2 \<and> Uch_root 0 chi0_unit 1 1 0 = Inr 1"
  by (simp add: Usp_root_problem_def Usp_root_def Uch_root_problem_def Uch_root_def chi0_unit_def
      chi_rpa_def chi_rpa_mw_def gf_inverse_def gf_rsub_def gf_scale_def gf_mul_def
      trace_chi_kw_def trace_chi_def)

subsection \<open>C6: the spin vertex stays below the critical one\<close>




subsection \<open>C7: the keys of the archive\<close>

text \<open>
  Claim C7 says that the repository defines no key-naming scheme and no per-iteration
  layout of its archives. The DMFT notebook does. Amended claim C7: how an object is
  stored under its key is the library's business, but the keys are the repository's: on
  the master node a run of the DMFT loop that ends without an exception leaves in
  \<open>results.h5\<close> the keys it found there and, for every iteration \<open>it < n_loops = 10\<close>,
  the keys \<open>G_iw-it\<close>, \<open>Sigma_iw-it\<close> and \<open>G0_iw-it\<close>; under the keys of the last
  iteration are the solver's \<open>G_iw\<close>, \<open>Sigma_iw\<close> and \<open>G0_iw\<close> as the run ends.
  Likewise \<open>gf.h5\<close> holds the one key \<open>g_iw\<close> with the container \<open>demo\<close> returns, and
  \<open>tpsc.h5\<close> is read under the key \<open>chi0_kw\<close>, with a \<open>KeyError\<close> when it is not there.
\<close>

theorem results_h5_key_layout:
  assumes "dmft_loop solve True P h_int S0 A0 = Inr st"
  shows "dom (results_h5 st) = dom A0 \<union> (\<Union>it<n_loops. archive_keys it)
       \<and> results_h5 st ''G_iw-9'' = Some (G_iw (S st))
       \<and> results_h5 st ''Sigma_iw-9'' = Some (Sigma_iw (S st))
       \<and> results_h5 st ''G0_iw-9'' = Some (G0_iw (S st))
       \<and> dom (snd (demo imfreq_mesh beta)) = {''g_iw''}
       \<and> snd (demo imfreq_mesh beta) ''g_iw'' = Some (fst (demo imfreq_mesh beta))
       \<and> reload_chi0 R = (case R ''chi0_kw'' of None \<Rightarrow> Inl KeyError | Some g \<Rightarrow> Inr g)"
proof -
  let ?st0 = "\<lparr>G_loc = G0_iw S0, S = S0\<lparr>Sigma_iw := block_const (mu P) (Sigma_iw S0)\<rparr>, results_h5 = A0\<rparr>"
  from assms have run: "for_each [0..<n_loops] (dmft_iteration solve True P h_int) ?st0 = Inr st"
    by (simp add: dmft_loop_def)
  have keys: "dom (results_h5 st) = dom A0 \<union> (\<Union>it<n_loops. archive_keys it)"
    using for_each_archive [OF run] by (simp add: lessThan_atLeast0)
  have "[0..<10::nat] = [0..<9] @ [9]" by code_simp
  then have "[0..<n_loops] = [0..<9] @ [9]" by (simp add: n_loops_def)
  with run obtain st1 where "dmft_iteration solve True P h_int 9 st1 = Inr st"
    by (auto simp: for_each_append ebind_eq_Inr)
  moreover have "str_of_nat 9 = ''9''" by code_simp
  ultimately show ?thesis using dmft_iteration_last_write [of solve P h_int 9 st1 st] keys
    by (simp add: demo_def Let_def reload_chi0_def dict_get_def)
qed

text \<open>
  The amended claim C7 for the small run, started on an empty archive.
\<close>

theorem results_h5_key_layout_witness:
  "archive_dom (dmft_loop solve_free True P_small () S_small Map.empty)
   = (\<Union>it<n_loops. archive_keys it)"
proof -
  from small_run obtain st where r: "dmft_loop solve_free True P_small () S_small Map.empty = Inr st"
    by blast
  from results_h5_key_layout [OF r] show ?thesis by (simp add: archive_dom_def r)
qed

text \<open>
  Claim C7 fails for that run: whatever the library does, the archive has the keys
  \<open>G_iw-0\<close>, \<open>Sigma_iw-4\<close> and \<open>G0_iw-9\<close>.
\<close>

theorem no_key_scheme_counterexample:
  "''G_iw-0'' \<in> archive_dom (dmft_loop solve_free True P_small () S_small Map.empty)
   \<and> ''Sigma_iw-4'' \<in> archive_dom (dmft_loop solve_free True P_small () S_small Map.empty)
   \<and> ''G0_iw-9'' \<in> archive_dom (dmft_loop solve_free True P_small () S_small Map.empty)"
proof -
  have "str_of_nat 0 = ''0''" "str_of_nat 4 = ''4''" "str_of_nat 9 = ''9''" by code_simp+
  then have "''G_iw-0'' \<in> archive_keys 0" "''Sigma_iw-4'' \<in> archive_keys 4"
    "''G0_iw-9'' \<in> archive_keys 9" by (simp_all add: archive_keys_def)
  moreover have "(0::nat) < n_loops" "(4::nat) < n_loops" "(9::nat) < n_loops"
    by (simp_all add: n_loops_def)
  ultimately have "''G_iw-0'' \<in> (\<Union>it<n_loops. archive_keys it)"
    "''Sigma_iw-4'' \<in> (\<Union>it<n_loops. archive_keys it)"
    "''G0_iw-9'' \<in> (\<Union>it<n_loops. archive_keys it)" by blast+
  then show ?thesis by (simp add: small_archive_dom)
qed

subsection \<open>C8: the even/odd basis\<close>

text \<open>
  Claim C8: let \<open>dagger\<close> be additive, compatible with real multiples, an involution,
  and reverse products, and let the operators \<open>c(even-up, 0)\<close>, \<open>c(odd-up, 0)\<close>,
  \<open>c(even-down, 0)\<close>, \<open>c(odd-down, 0)\<close> satisfy the canonical anticommutation
  relations. Then the loop of the notebook fills \<open>cn\<close> with the four site operators
  \<open>c_1s = (c_even,s + c_odd,s) / sqrt 2\<close> and \<open>c_2s = (c_even,s - c_odd,s) / sqrt 2\<close>;
  \<open>(c_1s + c_2s) / sqrt 2\<close> and \<open>(c_1s - c_2s) / sqrt 2\<close> are the even and the odd
  operator again; the site operators satisfy the canonical anticommutation relations;
  and \<open>h_loc = U * (n_1up n_1down + n_2up n_2down)\<close> with \<open>n = dagger(c) c\<close> is
  Hermitian.
\<close>

theorem even_odd_basis_change:
  fixes c :: "string \<Rightarrow> nat \<Rightarrow> 'a::real_algebra_1"
  assumes dag: "is_dagger dg"
    and car: "canonical dg [c ''even-up'' 0, c ''odd-up'' 0, c ''even-down'' 0, c ''odd-down'' 0]"
  shows "\<exists>cn nn a1u a2u a1d a2d H.
           site_operators c dg = Inr (cn, nn)
         \<and> cn ''1-up'' = Some a1u \<and> cn ''2-up'' = Some a2u
         \<and> cn ''1-down'' = Some a1d \<and> cn ''2-down'' = Some a2d
         \<and> (a1u + a2u) /\<^sub>R sqrt 2 = c ''even-up'' 0 \<and> (a1u - a2u) /\<^sub>R sqrt 2 = c ''odd-up'' 0
         \<and> (a1d + a2d) /\<^sub>R sqrt 2 = c ''even-down'' 0 \<and> (a1d - a2d) /\<^sub>R sqrt 2 = c ''odd-down'' 0
         \<and> canonical dg [a1u, a2u, a1d, a2d]
         \<and> h_loc c dg U = Inr H
         \<and> H = U *\<^sub>R ((dg a1u * a1u) * (dg a1d * a1d) + (dg a2u * a2u) * (dg a2d * a2d))
         \<and> dg H = H"
proof -
  define a1u where "a1u = (c ''even-up'' 0 + c ''odd-up'' 0) /\<^sub>R sqrt 2"
  define a2u where "a2u = (c ''even-up'' 0 - c ''odd-up'' 0) /\<^sub>R sqrt 2"
  define a1d where "a1d = (c ''even-down'' 0 + c ''odd-down'' 0) /\<^sub>R sqrt 2"
  define a2d where "a2d = (c ''even-down'' 0 - c ''odd-down'' 0) /\<^sub>R sqrt 2"
  define cn where "cn = [''1-up'' \<mapsto> a1u, ''2-up'' \<mapsto> a2u, ''1-down'' \<mapsto> a1d, ''2-down'' \<mapsto> a2d]"
  define nn where "nn = [''1-up'' \<mapsto> dg a1u * a1u, ''2-up'' \<mapsto> dg a2u * a2u,
                         ''1-down'' \<mapsto> dg a1d * a1d, ''2-down'' \<mapsto> dg a2d * a2d]"
  define H where "H = U *\<^sub>R ((dg a1u * a1u) * (dg a1d * a1d) + (dg a2u * a2u) * (dg a2d * a2d))"
  have ops: "site_operators c dg = Inr (cn, nn)"
    unfolding site_operators_eq cn_def nn_def a1u_def a2u_def a1d_def a2d_def ..
  have look: "cn ''1-up'' = Some a1u" "cn ''2-up'' = Some a2u" "cn ''1-down'' = Some a1d"
    "cn ''2-down'' = Some a2d"
    by (simp_all add: cn_def)
  have inv: "(a1u + a2u) /\<^sub>R sqrt 2 = c ''even-up'' 0" "(a1u - a2u) /\<^sub>R sqrt 2 = c ''odd-up'' 0"
    "(a1d + a2d) /\<^sub>R sqrt 2 = c ''even-down'' 0" "(a1d - a2d) /\<^sub>R sqrt 2 = c ''odd-down'' 0"
    unfolding a1u_def a2u_def a1d_def a2d_def by (rule involution)+
  have site: "canonical dg [a1u, a2u, a1d, a2d]"
    unfolding a1u_def a2u_def a1d_def a2d_def by (rule canonical_site [OF dag car])
  have hl: "h_loc c dg U = Inr H"
    unfolding h_loc_def ops by (simp add: nn_def H_def dict_get_def)
  note s = site [unfolded canonical_4]
  have c1: "(dg a1d * a1d) * (dg a1u * a1u) = (dg a1u * a1u) * (dg a1d * a1d)"
    by (rule number_commute [OF dag]) (simp_all add: s)
  have c2: "(dg a2d * a2d) * (dg a2u * a2u) = (dg a2u * a2u) * (dg a2d * a2d)"
    by (rule number_commute [OF dag]) (simp_all add: s)
  have d: "dg (x + y) = dg x + dg y" "dg (x * y) = dg y * dg x" "dg (r *\<^sub>R x) = r *\<^sub>R dg x"
    "dg (dg x) = x" for x y r
    using dag by (simp_all add: is_dagger_def)
  have "dg H = U *\<^sub>R ((dg a1d * a1d) * (dg a1u * a1u) + (dg a2d * a2d) * (dg a2u * a2u))"
    unfolding H_def by (simp add: d)
  then have herm: "dg H = H" unfolding c1 c2 H_def .
  show ?thesis
    using ops look inv site hl herm H_def by blast
qed

text \<open>
  Claim C8 for the Jordan-Wigner operators of four modes, with the transpose as
  \<open>dagger\<close> and \<open>U = 5/2\<close>.
\<close>

theorem even_odd_basis_change_witness:
  "is_dagger adj \<and> canonical adj [ann1, ann2, ann3, ann4]
   \<and> (\<exists>cn nn a1u a2u a1d a2d H.
         site_operators c_jw adj = Inr (cn, nn)
       \<and> cn ''1-up'' = Some a1u \<and> cn ''2-up'' = Some a2u
       \<and> cn ''1-down'' = Some a1d \<and> cn ''2-down'' = Some a2d
       \<and> (a1u + a2u) /\<^sub>R sqrt 2 = ann1 \<and> (a1u - a2u) /\<^sub>R sqrt 2 = ann2
       \<and> (a1d + a2d) /\<^sub>R sqrt 2 = ann3 \<and> (a1d - a2d) /\<^sub>R sqrt 2 = ann4
       \<and> canonical adj [a1u, a2u, a1d, a2d]
       \<and> h_loc c_jw adj (5 / 2) = Inr H
       \<and> adj H = H)"
proof -
  have n: "c_jw ''even-up'' 0 = ann1" "c_jw ''odd-up'' 0 = ann2" "c_jw ''even-down'' 0 = ann3"
    "c_jw ''odd-down'' 0 = ann4"
    by (simp_all add: c_jw_def)
  have car: "canonical adj [c_jw ''even-up'' 0, c_jw ''odd-up'' 0, c_jw ''even-down'' 0,
      c_jw ''odd-down'' 0]"
    unfolding n by (rule jw_canonical)
  from even_odd_basis_change [where c = c_jw and dg = adj and U = "5 / 2", OF adj_is_dagger car, unfolded n]
  show ?thesis using adj_is_dagger jw_canonical by blast
qed

subsection \<open>C9: who writes\<close>

text \<open>
  Claim C9 says that the repository has no rule about which process performs archive
  writes. The DMFT loop has one. Amended claim C9: every process runs the same loop and
  ends with the same Green's function and solver state, whatever
  \<open>mpi.is_master_node()\<close> says; a process for which it is false leaves \<open>results.h5\<close>
  as it found it, and the process for which it is true writes the three keys of every
  iteration.
\<close>

theorem master_node_writes:
  assumes "dmft_loop solve m P h S0 A0 = Inr st"
  shows "(if m then (\<Union>it<n_loops. archive_keys it) \<subseteq> dom (results_h5 st)
          else results_h5 st = A0)
       \<and> map_sum id (\<lambda>s. (G_loc s, S s)) (dmft_loop solve (\<not> m) P h S0 A0) = Inr (G_loc st, S st)"
proof -
  let ?st0 = "\<lparr>G_loc = G0_iw S0, S = S0\<lparr>Sigma_iw := block_const (mu P) (Sigma_iw S0)\<rparr>, results_h5 = A0\<rparr>"
  from assms have run: "for_each [0..<n_loops] (dmft_iteration solve m P h) ?st0 = Inr st"
    by (simp add: dmft_loop_def)
  have 1: "if m then (\<Union>it<n_loops. archive_keys it) \<subseteq> dom (results_h5 st)
          else results_h5 st = A0"
  proof (cases m)
    case True
    with for_each_archive [OF run] show ?thesis by (auto simp: lessThan_atLeast0)
  next
    case False
    with for_each_not_master [of "[0..<n_loops]" solve P h ?st0 st] run show ?thesis by simp
  qed
  have "map_sum id (\<lambda>s. (G_loc s, S s)) (dmft_loop solve (\<not> m) P h S0 A0)
        = map_sum id (\<lambda>s. (G_loc s, S s)) (dmft_loop solve m P h S0 A0)"
    unfolding dmft_loop_def by (rule for_each_indep) simp_all
  with 1 assms show ?thesis by simp
qed

text \<open>
  The amended claim C9 for the small run on a process that is not the master node.
\<close>

theorem master_node_writes_witness:
  "archive_dom (dmft_loop solve_free False P_small () S_small Map.empty) = {}"
proof -
  from small_run obtain st where r: "dmft_loop solve_free False P_small () S_small Map.empty = Inr st"
    by blast
  from master_node_writes [OF r] show ?thesis by (simp add: archive_dom_def r)
qed

text \<open>
  Claim C9 fails for the small run: the same run has the key \<open>G_iw-0\<close> in its archive
  on the master node and not on any other process.
\<close>

theorem no_write_rule_counterexample:
  "''G_iw-0'' \<in> archive_dom (dmft_loop solve_free True P_small () S_small Map.empty)
   \<and> ''G_iw-0'' \<notin> archive_dom (dmft_loop solve_free False P_small () S_small Map.empty)"
proof -
  have "str_of_nat 0 = ''0''" by code_simp
  then have "''G_iw-0'' \<in> archive_keys 0" by (simp add: archive_keys_def)
  moreover have "(0::nat) < n_loops" by (simp add: n_loops_def)
  ultimately have "''G_iw-0'' \<in> (\<Union>it<n_loops. archive_keys it)" by blast
  then show ?thesis by (simp add: small_archive_dom)
qed

end
